theory Spec2Isabelle
  imports Main
begin

section \<open>Result algebra (types/result.ts)\<close>

text \<open>
  \<^verbatim>\<open>type Result<T> = { success: true; data: T } | { success: false; errors: string[] }\<close>.
  Of a value it has for a Result the code reads the boolean \<^verbatim>\<open>success\<close> and then
  \<^verbatim>\<open>data\<close> or \<^verbatim>\<open>errors\<close>, and \<^verbatim>\<open>asResult\<close> has every object with a boolean \<^verbatim>\<open>success\<close>
  property for a Result, whoever built it. So a value that the program treats as a
  Result is one of three:

    \<^item> \<open>Success d\<close>: \<^verbatim>\<open>success\<close> is \<^verbatim>\<open>true\<close>, and \<open>d\<close> is what \<^verbatim>\<open>.data\<close> reads;

    \<^item> \<open>Failure errs\<close>: \<^verbatim>\<open>success\<close> is \<^verbatim>\<open>false\<close> and \<^verbatim>\<open>errors\<close> can be spread; \<open>errs\<close> are
      the strings that \<^verbatim>\<open>failure(...errors)\<close> makes of its elements, which for the
      \<^verbatim>\<open>string[]\<close> of the type are the elements themselves;

    \<^item> \<open>Malformed\<close>: \<^verbatim>\<open>success\<close> is \<^verbatim>\<open>false\<close> and \<^verbatim>\<open>errors\<close> cannot be spread (the property
      is missing, or is not iterable). No object of the TypeScript type is like this, but
      an object of another type can be: \<^verbatim>\<open>{ success: false }\<close>, or a record of the store
      with a field \<^verbatim>\<open>success: false\<close>.

  \<open>is_success\<close> is the property \<^verbatim>\<open>success\<close>.
\<close>

datatype 'a Result = is_success: Success (data: 'a) | Failure (errors: "string list") | Malformed

text \<open>What \<^verbatim>\<open>...result.errors\<close> spreads to; \<open>None\<close> when the spread throws.\<close>

definition errorList :: "'a Result \<Rightarrow> string list option" where
  "errorList result = (case result of Failure errs \<Rightarrow> Some errs | _ \<Rightarrow> None)"

text \<open>
  A schema identity \<^verbatim>\<open>{name, version}\<close> and the \<^verbatim>\<open>{start, end}\<close> pair of a transform.
  \<^verbatim>\<open>_.isEqual\<close> on two identities is equality of the two records. A version is a
  JavaScript number; the model has the integers, on which \<^verbatim>\<open><\<close> is the order of \<open>int\<close>
  (a parsed record carries no NaN).
\<close>

record AnalysisType =
  name :: string
  version :: int

record Versions =
  start :: AnalysisType
  "end" :: AnalysisType

text \<open>
  The values the code hands to \<^verbatim>\<open>failure\<close> (typed
  \<^verbatim>\<open>string | number | boolean | object | unknown\<close>): message strings, a version object,
  the \<^verbatim>\<open>{start, end}\<close> object of a transform, a failed Result object (with its error
  list, \<open>None\<close> for a \<open>Malformed\<close> one), and a value caught by \<^verbatim>\<open>catch (e)\<close>, of the
  exception type \<open>'e\<close>.
\<close>

datatype 'e unknown =
    Str string
  | VersionObj AnalysisType
  | VersionsObj Versions
  | FailureObj "string list option"
  | Thrown 'e

text \<open>
  Modelled from the spec: \<^verbatim>\<open>unknownToString\<close> (utils/typeUtils) is not among the sources.
  The spec says that every part is rendered to a string, objects, numbers and booleans
  being stringified, and that a string part is the error text itself (\<^verbatim>\<open>take()\<close> fails
  with "Empty Queue"). A string is therefore kept as it is; how every other value is
  rendered is the parameter \<open>render\<close>.
\<close>

definition unknownToString :: "('e unknown \<Rightarrow> string) \<Rightarrow> 'e unknown \<Rightarrow> string" where
  "unknownToString render u = (case u of Str s \<Rightarrow> s | _ \<Rightarrow> render u)"

definition success :: "'a \<Rightarrow> 'a Result" where
  "success d = Success d"

definition failure :: "('e unknown \<Rightarrow> string) \<Rightarrow> 'e unknown list \<Rightarrow> 'a Result" where
  "failure render errs = Failure (map (unknownToString render) errs)"

text \<open>
  \<^verbatim>\<open>Result<T> | T\<close>, the argument type of \<^verbatim>\<open>asResult\<close> and of the functions made by
  \<^verbatim>\<open>withResult\<close>. \<^verbatim>\<open>asResult\<close> tests the shape of its argument,
  \<^verbatim>\<open>input && typeof input === 'object' && 'success' in input && typeof input.success === 'boolean'\<close>,
  and an argument is given here by the outcome of that test:

    \<^item> \<open>IsResult r\<close>: the test passes. The argument is an object with a boolean
      \<^verbatim>\<open>success\<close> property, built by \<^verbatim>\<open>success\<close> or \<^verbatim>\<open>failure\<close> or not, and \<open>r\<close> is what the
      code reads of it: \<^verbatim>\<open>{ success: true, data: 5, note: 'x' }\<close> is \<open>IsResult (Success 5)\<close>,
      and \<^verbatim>\<open>{ success: false }\<close> is \<open>IsResult Malformed\<close>, whatever the type \<^verbatim>\<open>T\<close> is;

    \<^item> \<open>Bare v\<close>: the test fails. The argument \<open>v\<close> is not an object, or it has no
      \<^verbatim>\<open>success\<close> property, or one that is not a boolean.

  The payload type \<open>'a\<close> holds whatever the program may hand on as the payload, the
  \<^verbatim>\<open>.data\<close> of an object that passes the test included. When the test passes the argument
  is returned as it is.
\<close>

datatype 'a ResultOr = IsResult "'a Result" | Bare 'a

definition asResult :: "'a ResultOr \<Rightarrow> 'a Result" where
  "asResult input = (case input of IsResult r \<Rightarrow> r | Bare v \<Rightarrow> success v)"

text \<open>
  A function of the program may read and change state outside its arguments and may
  throw. It is a state transformer on a world \<open>'w\<close> that returns \<open>Inl e\<close> when it throws
  \<open>e\<close>. A function that is not called leaves the world as it was.
\<close>

type_synonym ('w, 'e, 'a) eff = "'w \<Rightarrow> ('e + 'a) \<times> 'w"

text \<open>
  The function that \<^verbatim>\<open>withResult(fn)\<close> returns. \<^verbatim>\<open>failure(...result.errors)\<close> is outside the
  \<^verbatim>\<open>try\<close>: when \<^verbatim>\<open>errors\<close> cannot be spread the call throws a TypeError, which leaves
  the function. \<open>typeError\<close> is that TypeError as a value of the exception type (the
  model does not tell one TypeError from another by its message). What \<open>fn\<close> throws is
  caught.
\<close>

definition withResult ::
  "('e unknown \<Rightarrow> string) \<Rightarrow> 'e \<Rightarrow> ('a \<Rightarrow> ('w, 'e, 'b ResultOr) eff) \<Rightarrow>
     'a ResultOr \<Rightarrow> ('w, 'e, 'b Result) eff" where
  "withResult render typeError fn input w =
     (let result = asResult input
      in if \<not> is_success result
         then (case errorList result of
                 None \<Rightarrow> (Inl typeError, w)
               | Some errs \<Rightarrow> (Inr (failure render (map Str errs)), w))
         else (case fn (data result) w of
                 (Inr v, w') \<Rightarrow> (Inr (asResult v), w')
               | (Inl e, w') \<Rightarrow> (Inr (failure render [Thrown e]), w')))"

text \<open>
  The exceptions of the examples, neither of them a string: an Error object that a step
  throws, and a TypeError. A rendering for the examples: every value that is not a string
  prints the same.
\<close>

datatype exception = Boom | TypeErr

definition renderObject :: "exception unknown \<Rightarrow> string" where
  "renderObject u = ''[object Object]''"

text \<open>An example step: it counts its calls in the world and throws on zero.\<close>

definition halve :: "nat \<Rightarrow> (nat, exception, nat ResultOr) eff" where
  "halve n calls = (if n = 0 then (Inl Boom, Suc calls) else (Inr (Bare (n div 2)), Suc calls))"

section \<open>Rendering of numbers and versions in messages\<close>

text \<open>
  A template literal prints an integer in decimal, and \<^verbatim>\<open>JSON.stringify\<close> prints the
  object \<^verbatim>\<open>{name, version}\<close> with its keys in that order, the name quoted and escaped.
  Integer versions and ASCII names are covered (a number of 22 digits or more prints with
  an exponent in JavaScript).
\<close>

definition digit :: "nat \<Rightarrow> char" where
  "digit d = ''0123456789'' ! d"

function numberDigits :: "nat \<Rightarrow> string" where
  "numberDigits n = (if n < 10 then [digit n] else numberDigits (n div 10) @ [digit (n mod 10)])"
  by pat_completeness auto
termination
  by (relation "measure id") auto

definition numberToString :: "int \<Rightarrow> string" where
  "numberToString i = (if i < 0 then CHR ''-'' # numberDigits (nat (- i)) else numberDigits (nat i))"

definition hexDigit :: "nat \<Rightarrow> char" where
  "hexDigit d = ''0123456789abcdef'' ! d"

definition quoteChar :: "char \<Rightarrow> string" where
  "quoteChar ch =
     (if ch = CHR 0x22 then [CHR 0x5C, CHR 0x22]
      else if ch = CHR 0x5C then [CHR 0x5C, CHR 0x5C]
      else if ch = CHR 0x08 then [CHR 0x5C, CHR ''b'']
      else if ch = CHR 0x0C then [CHR 0x5C, CHR ''f'']
      else if ch = CHR 0x0A then [CHR 0x5C, CHR ''n'']
      else if ch = CHR 0x0D then [CHR 0x5C, CHR ''r'']
      else if ch = CHR 0x09 then [CHR 0x5C, CHR ''t'']
      else if (of_char ch :: nat) < 32
        then [CHR 0x5C, CHR ''u'', CHR ''0'', CHR ''0'',
              hexDigit (of_char ch div 16), hexDigit (of_char ch mod 16)]
      else [ch])"

definition quoteJSONString :: "string \<Rightarrow> string" where
  "quoteJSONString str = CHR 0x22 # concat (map quoteChar str) @ [CHR 0x22]"

definition JSON_stringify :: "AnalysisType \<Rightarrow> string" where
  \<open>JSON_stringify v =
     ''{"name":'' @ quoteJSONString (name v) @ '',"version":'' @ numberToString (version v) @ ''}''\<close>

section \<open>Versioned transforms (migration/transform.ts)\<close>

text \<open>
  A record of the store (an Analysis) has its declared schema identity and its other
  fields, which the chain engine never looks at.
\<close>

record 'p Analysis =
  analysisType :: AnalysisType
  payload :: 'p

text \<open>\<^verbatim>\<open>Transform = { start, end, apply }\<close>, the object that \<^verbatim>\<open>defineTransform\<close> returns.\<close>

record ('w, 'e, 'p) Transform = Versions +
  "apply" :: "'p Analysis \<Rightarrow> ('w, 'e, 'p Analysis Result) eff"

definition defineTransform ::
  "('e unknown \<Rightarrow> string) \<Rightarrow> Versions \<Rightarrow>
     ('p Analysis \<Rightarrow> ('w, 'e, 'p Analysis Result) eff) \<Rightarrow> ('w, 'e, 'p) Transform" where
  "defineTransform render versions transformer =
     \<lparr>start = start versions, end = end versions,
      apply = (\<lambda>input w.
        if analysisType input \<noteq> start versions
        then (Inr (failure render [Str ''Analysis type does not match expected input type'']), w)
        else (case transformer input w of
                (Inl e, w') \<Rightarrow> (Inl e, w')
              | (Inr transformResult, w') \<Rightarrow>
                  (if \<not> is_success transformResult
                   then (Inr (failure render [Str ''Error applying transform'',
                                 VersionsObj versions, FailureObj (errorList transformResult)]), w')
                   else (Inr (success ((data transformResult)\<lparr>analysisType := end versions\<rparr>)), w'))))\<rparr>"

section \<open>Slicing helpers (utils/arrayUtils.ts)\<close>

text \<open>\<^verbatim>\<open>_.findIndex\<close>: the index of the first element that passes the test, or -1.\<close>

fun findIndex :: "'a list \<Rightarrow> ('a \<Rightarrow> bool) \<Rightarrow> int" where
  "findIndex [] test = - 1"
| "findIndex (x # xs) test =
     (if test x then 0 else (let i = findIndex xs test in if i < 0 then - 1 else i + 1))"

definition sliceFrom :: "('e unknown \<Rightarrow> string) \<Rightarrow> 'a list \<Rightarrow> ('a \<Rightarrow> bool) \<Rightarrow> 'a list Result" where
  "sliceFrom render array test =
     (let sliceIndex = findIndex array test
      in if sliceIndex < 0
         then failure render
                [Str ''Unable to find item in array that matches provided starting position test.'']
         else success (drop (nat sliceIndex) array))"

definition sliceTo ::
  "('e unknown \<Rightarrow> string) \<Rightarrow> 'a list \<Rightarrow> ('a \<Rightarrow> bool) \<Rightarrow> bool \<Rightarrow> 'a list Result" where
  "sliceTo render array test inclusive =
     (let sliceIndex = findIndex array test
      in if sliceIndex < 0
         then failure render
                [Str ''Unable to find item in array that matches provided end position test.'']
         else success (take (nat (sliceIndex + (if inclusive then 1 else 0))) array))"

section \<open>Transform chains (migration/transform.ts)\<close>

text \<open>
  Every call of \<^verbatim>\<open>extendTransformChain(baseChain)(...transforms)\<close> makes a fresh array
  \<^verbatim>\<open>chain = [...baseChain]\<close>, pushes the transforms onto it one by one, and returns an
  object whose methods close over that array. The arrays live in a store, a chain object
  is the address of its array, and a method reads the array at that address.
\<close>

type_synonym ('w, 'e, 'p) store = "('w, 'e, 'p) Transform list list"

type_synonym TransformChain = nat

text \<open>The message thrown when a transform does not connect.\<close>

definition connectError :: "nat \<Rightarrow> ('w, 'e, 'p) Transform \<Rightarrow> AnalysisType \<Rightarrow> string" where
  "connectError index transform end' =
     ''Transform provided at index '' @ numberToString (int index)
     @ '' does not connect to the transform chain. Received: '' @ JSON_stringify (end transform)
     @ '' - Expected: '' @ JSON_stringify end'"

text \<open>
  The \<^verbatim>\<open>forEach\<close> loop over \<^verbatim>\<open>transforms\<close>, on the array at address \<open>c\<close>. \<open>Inl\<close> is the
  string it throws to break out.
\<close>

fun forEachTransform ::
  "TransformChain \<Rightarrow> nat \<Rightarrow> ('w, 'e, 'p) Transform list \<Rightarrow> ('w, 'e, 'p) store \<Rightarrow>
     (string + unit) \<times> ('w, 'e, 'p) store" where
  "forEachTransform c index [] s = (Inr (), s)"
| "forEachTransform c index (transform # rest) s =
     (let chain = s ! c;
          end' = (if length chain > 0 then end (last chain) else start transform)
      in if end' \<noteq> start transform
         then (Inl (connectError index transform end'), s)
         else forEachTransform c (index + 1) rest (s[c := chain @ [transform]]))"

definition extendTransformChain ::
  "('e unknown \<Rightarrow> string) \<Rightarrow> ('w, 'e, 'p) Transform list \<Rightarrow> ('w, 'e, 'p) Transform list \<Rightarrow>
     ('w, 'e, 'p) store \<Rightarrow> TransformChain Result \<times> ('w, 'e, 'p) store" where
  "extendTransformChain render baseChain transforms s =
     (let c = length s
      in case forEachTransform c 0 transforms (s @ [baseChain]) of
           (Inl e, s') \<Rightarrow> (failure render [Str e], s')
         | (Inr _, s') \<Rightarrow> (asResult (Bare c), s'))"

definition createTransformChain ::
  "('e unknown \<Rightarrow> string) \<Rightarrow> ('w, 'e, 'p) Transform list \<Rightarrow>
     ('w, 'e, 'p) store \<Rightarrow> TransformChain Result \<times> ('w, 'e, 'p) store" where
  "createTransformChain render transforms s = extendTransformChain render [] transforms s"

text \<open>
  The methods of a chain object. \<^verbatim>\<open>chain[0].start\<close> and \<^verbatim>\<open>chain.slice(-1)[0].end\<close> read
  a property of \<^verbatim>\<open>undefined\<close> when the array is empty, which throws a TypeError.
\<close>

datatype TypeError = TypeError

definition getStart :: "('w, 'e, 'p) store \<Rightarrow> TransformChain \<Rightarrow> TypeError + AnalysisType" where
  "getStart s c = (case s ! c of [] \<Rightarrow> Inl TypeError | t # ts \<Rightarrow> Inr (start t))"

definition getEnd :: "('w, 'e, 'p) store \<Rightarrow> TransformChain \<Rightarrow> TypeError + AnalysisType" where
  "getEnd s c = (case s ! c of [] \<Rightarrow> Inl TypeError | t # ts \<Rightarrow> Inr (end (last (t # ts))))"

definition add ::
  "('e unknown \<Rightarrow> string) \<Rightarrow> TransformChain \<Rightarrow> ('w, 'e, 'p) Transform \<Rightarrow>
     ('w, 'e, 'p) store \<Rightarrow> TransformChain Result \<times> ('w, 'e, 'p) store" where
  "add render c transform s = extendTransformChain render (s ! c) [transform] s"

definition "from" ::
  "('e unknown \<Rightarrow> string) \<Rightarrow> TransformChain \<Rightarrow> AnalysisType \<Rightarrow>
     ('w, 'e, 'p) store \<Rightarrow> TransformChain Result \<times> ('w, 'e, 'p) store" where
  "from render c version' s =
     (let slicedChainResult = sliceFrom render (s ! c) (\<lambda>transform. start transform = version')
      in if \<not> is_success slicedChainResult
         then (failure render
                 ([Str ''Migration chain does not have a transform to start from for analyses of this type'',
                   VersionObj version'] @ map Str (errors slicedChainResult)), s)
         else extendTransformChain render (data slicedChainResult) [] s)"

definition to ::
  "('e unknown \<Rightarrow> string) \<Rightarrow> TransformChain \<Rightarrow> AnalysisType \<Rightarrow>
     ('w, 'e, 'p) store \<Rightarrow> TransformChain Result \<times> ('w, 'e, 'p) store" where
  "to render c version' s =
     (let slicedChainResult = sliceTo render (s ! c) (\<lambda>transform. end transform = version') True
      in if \<not> is_success slicedChainResult
         then (failure render
                 ([Str ''Migration chain does not have a transform to end on for analyses of this type'',
                   VersionObj version'] @ map Str (errors slicedChainResult)), s)
         else extendTransformChain render (data slicedChainResult) [] s)"

text \<open>
  \<^verbatim>\<open>apply\<close> of a chain: the reduce over the array, starting from
  \<^verbatim>\<open>asResult(_.cloneDeep(analysis))\<close>. Records are values here, so the deep copy is the
  record itself. A record of the store keeps the fields it came with (the schema is
  \<^verbatim>\<open>passthrough\<close>), so it may have a boolean \<^verbatim>\<open>success\<close> among them: \<open>look\<close> says how the
  shape test of \<^verbatim>\<open>asResult\<close> comes out on a record, from its other fields. \<open>look a = Bare a\<close>
  for a record without a boolean \<^verbatim>\<open>success\<close>; \<open>look a = IsResult Malformed\<close> for one with
  \<^verbatim>\<open>success: false\<close> and no \<^verbatim>\<open>errors\<close> that can be spread; \<open>look a = IsResult (Failure errs)\<close>
  for one with \<^verbatim>\<open>success: false\<close> whose \<^verbatim>\<open>errors\<close> spread to \<open>errs\<close>;
  \<open>look a = IsResult (Success d)\<close> for one with \<^verbatim>\<open>success: true\<close> whose \<^verbatim>\<open>data\<close> is the
  record \<open>d\<close>. A record with \<^verbatim>\<open>success: true\<close> whose \<^verbatim>\<open>data\<close> is not a record is not among
  the arguments that \<open>look\<close> can describe.

  Each step is \<^verbatim>\<open>withResult(transform.apply)(acc)\<close>. A step that throws ends the reduce:
  the exception leaves \<^verbatim>\<open>apply\<close>.
\<close>

definition applyStep ::
  "('e unknown \<Rightarrow> string) \<Rightarrow> 'e \<Rightarrow> ('e + 'p Analysis Result) \<times> 'w \<Rightarrow> ('w, 'e, 'p) Transform \<Rightarrow>
     ('e + 'p Analysis Result) \<times> 'w" where
  "applyStep render typeError accw transform =
     (case fst accw of
        Inl e \<Rightarrow> accw
      | Inr acc \<Rightarrow>
          withResult render typeError
            (\<lambda>a w. case apply transform a w of (r, w') \<Rightarrow> (map_sum id IsResult r, w'))
            (IsResult acc) (snd accw))"

definition applyAll ::
  "('e unknown \<Rightarrow> string) \<Rightarrow> 'e \<Rightarrow> ('p Analysis \<Rightarrow> 'p Analysis ResultOr) \<Rightarrow>
     ('w, 'e, 'p) Transform list \<Rightarrow> 'p Analysis \<Rightarrow> ('w, 'e, 'p Analysis Result) eff" where
  "applyAll render typeError look chain analysis w =
     foldl (applyStep render typeError) (Inr (asResult (look analysis)), w) chain"

definition applyChain ::
  "('e unknown \<Rightarrow> string) \<Rightarrow> 'e \<Rightarrow> ('p Analysis \<Rightarrow> 'p Analysis ResultOr) \<Rightarrow>
     ('w, 'e, 'p) store \<Rightarrow> TransformChain \<Rightarrow> 'p Analysis \<Rightarrow> ('w, 'e, 'p Analysis Result) eff" where
  "applyChain render typeError look s c analysis w = applyAll render typeError look (s ! c) analysis w"

text \<open>Example transforms: each adds a number to the payload and counts its calls.\<close>

definition vers :: "int \<Rightarrow> AnalysisType" where
  "vers n = \<lparr>name = ''cs'', version = n\<rparr>"

definition bump :: "nat \<Rightarrow> nat Analysis \<Rightarrow> (nat, exception, nat Analysis Result) eff" where
  "bump k a calls = (Inr (success (a\<lparr>payload := payload a + k\<rparr>)), Suc calls)"

definition step :: "int \<Rightarrow> int \<Rightarrow> nat \<Rightarrow> (nat, exception, nat) Transform" where
  "step a b k = defineTransform renderObject \<lparr>start = vers a, end = vers b\<rparr> (bump k)"

text \<open>
  The specification's words for a validated chain: for every adjacent pair, the end of
  the earlier transform equals the start of the later one.
\<close>

definition connected :: "('w, 'e, 'p) Transform list \<Rightarrow> bool" where
  "connected ts = (\<forall>i. Suc i < length ts \<longrightarrow> end (ts ! i) = start (ts ! Suc i))"

text \<open>
  What the loop checks when \<open>ts\<close> is pushed onto an array holding \<open>chain\<close>: the first
  of \<open>ts\<close> connects to the last of \<open>chain\<close> (nothing to check when \<open>chain\<close> is empty), and
  \<open>ts\<close> connects pair by pair.
\<close>

definition joins :: "('w, 'e, 'p) Transform list \<Rightarrow> ('w, 'e, 'p) Transform list \<Rightarrow> bool" where
  "joins chain ts =
     ((case ts of [] \<Rightarrow> True | t # _ \<Rightarrow> (case chain of [] \<Rightarrow> True | _ \<Rightarrow> end (last chain) = start t))
      \<and> successively (\<lambda>a b. end a = start b) ts)"

text \<open>
  A chain whose array is not empty: \<^verbatim>\<open>getStart()\<close> and \<^verbatim>\<open>getEnd()\<close> return the start of
  its first and the end of its last transform.
\<close>

definition nonEmptyChain :: "('w, 'e, 'p) store \<Rightarrow> TransformChain \<Rightarrow> bool" where
  "nonEmptyChain s c =
     (case s ! c of
        [] \<Rightarrow> False
      | t # ts \<Rightarrow> getStart s c = Inr (start t) \<and> getEnd s c = Inr (end (last (t # ts))))"

text \<open>
  A call that went from store \<open>s\<close> to \<open>s'\<close> and returned the chain \<open>c'\<close> made a new chain
  and mutated nothing: \<open>c'\<close> is an address that \<open>s\<close> did not have, and every array of \<open>s\<close>
  is in \<open>s'\<close> as it was.
\<close>

definition newChain :: "('w, 'e, 'p) store \<Rightarrow> TransformChain \<Rightarrow> ('w, 'e, 'p) store \<Rightarrow> bool" where
  "newChain s c' s' = (length s \<le> c' \<and> c' < length s' \<and> take (length s) s' = s)"

text \<open>Example chains and records.\<close>

definition linear :: "(nat, exception, nat) Transform list" where
  "linear = [step 1 2 1, step 2 3 10, step 3 4 100]"

definition cyclic :: "(nat, exception, nat) Transform list" where
  "cyclic = [step 1 2 1, step 2 1 10, step 1 2 100]"

definition rec1 :: "nat Analysis" where
  "rec1 = \<lparr>analysisType = vers 1, payload = 0\<rparr>"

definition rec2 :: "nat Analysis" where
  "rec2 = \<lparr>analysisType = vers 2, payload = 0\<rparr>"

section \<open>Queue (structures/queue.ts)\<close>

text \<open>
  \<^verbatim>\<open>Queue<T>()\<close> returns an object closing over the array \<^verbatim>\<open>queue\<close> and the two listener
  arrays. A listener is called with the event \<^verbatim>\<open>{length, item}\<close>; what it does is a
  transformer of the array and of the world outside the queue (a listener may take
  from the queue it listens to, as the concurrency limiter's does).
\<close>

record 'a QueueEvent =
  length' :: nat
  item :: 'a

type_synonym ('a, 'w) QueueAction = "'a QueueEvent \<Rightarrow> 'a list \<times> 'w \<Rightarrow> 'a list \<times> 'w"

record ('a, 'w) Queue =
  queue :: "'a list"
  addActions :: "('a, 'w) QueueAction list"
  takeActions :: "('a, 'w) QueueAction list"

text \<open>A new queue: no element, no listener.\<close>

definition Queue :: "('a, 'w) Queue" where
  "Queue = \<lparr>queue = [], addActions = [], takeActions = []\<rparr>"

text \<open>
  \<^verbatim>\<open>actions.forEach((action) => action({ length: queue.length, item }))\<close>: the length is
  read again for each listener.
\<close>

definition forEachAction :: "('a, 'w) QueueAction list \<Rightarrow> 'a \<Rightarrow> 'a list \<times> 'w \<Rightarrow> 'a list \<times> 'w" where
  "forEachAction actions item' qw =
     foldl (\<lambda>qw action. action \<lparr>length' = length (fst qw), item = item'\<rparr> qw) qw actions"

definition triggerAddActions :: "('a, 'w) Queue \<Rightarrow> 'a \<Rightarrow> 'w \<Rightarrow> ('a, 'w) Queue \<times> 'w" where
  "triggerAddActions Q item' w =
     (case forEachAction (addActions Q) item' (queue Q, w) of (q, w') \<Rightarrow> (Q\<lparr>queue := q\<rparr>, w'))"

definition triggerTakeActions :: "('a, 'w) Queue \<Rightarrow> 'a \<Rightarrow> 'w \<Rightarrow> ('a, 'w) Queue \<times> 'w" where
  "triggerTakeActions Q item' w =
     (case forEachAction (takeActions Q) item' (queue Q, w) of (q, w') \<Rightarrow> (Q\<lparr>queue := q\<rparr>, w'))"

definition Queue_add :: "('a, 'w) Queue \<Rightarrow> 'a \<Rightarrow> 'w \<Rightarrow> ('a, 'w) Queue \<times> 'w" where
  "Queue_add Q item' w = triggerAddActions (Q\<lparr>queue := queue Q @ [item']\<rparr>) item' w"

text \<open>
  \<^verbatim>\<open>take\<close>: \<^verbatim>\<open>queue.shift()\<close> removes and returns the first element, or returns
  \<^verbatim>\<open>undefined\<close> on an empty array; \<^verbatim>\<open>if (item)\<close> then tests the truthiness of what came
  out. \<open>truthy\<close> is JavaScript's truthiness on the element type.
\<close>

definition Queue_take ::
  "('a \<Rightarrow> bool) \<Rightarrow> ('e unknown \<Rightarrow> string) \<Rightarrow> ('a, 'w) Queue \<Rightarrow> 'w \<Rightarrow>
     'a Result \<times> ('a, 'w) Queue \<times> 'w" where
  "Queue_take truthy render Q w =
     (case queue Q of
        [] \<Rightarrow> (failure render [Str ''Empty Queue''], Q, w)
      | item' # rest \<Rightarrow>
          if truthy item'
          then (case triggerTakeActions (Q\<lparr>queue := rest\<rparr>) item' w of
                  (Q', w') \<Rightarrow> (success item', Q', w'))
          else (failure render [Str ''Empty Queue''], Q\<lparr>queue := rest\<rparr>, w))"

definition Queue_onAdd :: "('a, 'w) Queue \<Rightarrow> ('a, 'w) QueueAction \<Rightarrow> ('a, 'w) Queue" where
  "Queue_onAdd Q action = Q\<lparr>addActions := addActions Q @ [action]\<rparr>"

definition Queue_onTake :: "('a, 'w) Queue \<Rightarrow> ('a, 'w) QueueAction \<Rightarrow> ('a, 'w) Queue" where
  "Queue_onTake Q action = Q\<lparr>takeActions := takeActions Q @ [action]\<rparr>"

definition Queue_getSize :: "('a, 'w) Queue \<Rightarrow> nat" where
  "Queue_getSize Q = length (queue Q)"

text \<open>Examples: truthiness of a number, and a listener that logs its events.\<close>

definition truthyNumber :: "int \<Rightarrow> bool" where
  "truthyNumber n = (n \<noteq> 0)"

definition logEvent :: "(int, int QueueEvent list) QueueAction" where
  "logEvent event qw = (fst qw, snd qw @ [event])"

definition numberQueue :: "(int, int QueueEvent list) Queue" where
  "numberQueue = fst (Queue_add (fst (Queue_add (Queue_onTake Queue logEvent) 0 [])) 7 [])"

section \<open>Concurrency-limited runner (structures/promiseQueue.ts)\<close>

text \<open>
  \<^verbatim>\<open>PromiseQueue(maxConcurrency)\<close> closes over the counter \<^verbatim>\<open>activeProcesses\<close>, a Queue of
  work functions and three listener arrays. \<^verbatim>\<open>maxConcurrency\<close> is an integer, as the
  specification has it. Its listeners only observe: they act on an
  observer state \<open>'o\<close>. Four logs are added to the variables, none of which the code
  reads: \<open>invoked\<close>, the work functions called so far (\<^verbatim>\<open>next.data()\<close>) in the order of the
  calls, each with the value that \<^verbatim>\<open>activeProcesses\<close> has when it is called; \<open>awaiting\<close>,
  the calls of \<^verbatim>\<open>attemptStart\<close> that are suspended at \<^verbatim>\<open>await next.data()\<close>, each named by
  its work function; \<open>history\<close>, every value that \<^verbatim>\<open>activeProcesses\<close> has held, the initial 0
  first; and \<open>told\<close>, every event object handed to a listener, one entry for each call
  of a listener.
\<close>

record PromiseQueueEvent =
  running :: int
  queued :: nat

record ('f, 'x, 'o) PromiseQueueVars =
  activeProcesses :: int
  startActions :: "(PromiseQueueEvent \<Rightarrow> 'o \<Rightarrow> 'o) list"
  finishActions :: "(PromiseQueueEvent \<Rightarrow> 'o \<Rightarrow> 'o) list"
  errorActions :: "(PromiseQueueEvent \<Rightarrow> 'x \<Rightarrow> 'o \<Rightarrow> 'o) list"
  invoked :: "('f \<times> int) list"
  awaiting :: "'f list"
  history :: "int list"
  told :: "PromiseQueueEvent list"
  observer :: 'o

record ('f, 'x, 'o) PromiseQueue =
  maxConcurrency :: int
  queue' :: "('f, ('f, 'x, 'o) PromiseQueueVars) Queue"
  vars :: "('f, 'x, 'o) PromiseQueueVars"

definition forEachListener :: "('ev \<Rightarrow> 'o \<Rightarrow> 'o) list \<Rightarrow> 'ev \<Rightarrow> 'o \<Rightarrow> 'o" where
  "forEachListener actions event ob = foldl (\<lambda>ob action. action event ob) ob actions"

text \<open>
  An assignment to \<^verbatim>\<open>activeProcesses\<close>, and a \<^verbatim>\<open>forEach\<close> over listeners that hands each of
  them the event object, with their entries in the logs.
\<close>

definition setActive :: "int \<Rightarrow> ('f, 'x, 'o) PromiseQueueVars \<Rightarrow> ('f, 'x, 'o) PromiseQueueVars" where
  "setActive n v = v\<lparr>activeProcesses := n, history := history v @ [n]\<rparr>"

definition tell ::
  "(PromiseQueueEvent \<Rightarrow> 'o \<Rightarrow> 'o) list \<Rightarrow> PromiseQueueEvent \<Rightarrow>
     ('f, 'x, 'o) PromiseQueueVars \<Rightarrow> ('f, 'x, 'o) PromiseQueueVars" where
  "tell actions event v =
     v\<lparr>observer := forEachListener actions event (observer v),
       told := told v @ map (\<lambda>action. event) actions\<rparr>"

text \<open>
  \<^verbatim>\<open>attemptStart\<close> up to its \<^verbatim>\<open>await\<close>: everything there runs without yielding. A work
  function is a function object, always truthy. The counter is raised, the start
  listeners are told, the work function is called, and the rest of \<^verbatim>\<open>attemptStart\<close> waits
  for its promise.
\<close>

definition attemptStart ::
  "('e unknown \<Rightarrow> string) \<Rightarrow> int \<Rightarrow> ('f, ('f, 'x, 'o) PromiseQueueVars) Queue \<Rightarrow>
     ('f, 'x, 'o) PromiseQueueVars \<Rightarrow>
     ('f, ('f, 'x, 'o) PromiseQueueVars) Queue \<times> ('f, 'x, 'o) PromiseQueueVars" where
  "attemptStart render maxConcurrency' Q v =
     (if activeProcesses v < maxConcurrency'
      then (case Queue_take (\<lambda>f. True) render Q v of
              (next, Q', v') \<Rightarrow>
                if is_success next
                then (let v1 = setActive (activeProcesses v' + 1) v';
                          v2 = tell (startActions v1)
                                 \<lparr>running = activeProcesses v1, queued = Queue_getSize Q'\<rparr> v1
                      in (Q', v2\<lparr>invoked := invoked v2 @ [(data next, activeProcesses v2)],
                                awaiting := awaiting v2 @ [data next]\<rparr>))
                else (Q', v'))
      else (Q, v))"

text \<open>
  The rest of \<^verbatim>\<open>attemptStart\<close>, run when the promise of the work function \<open>f\<close> settles:
  after it resolved, and after it rejected with \<open>error\<close> (\<open>Some error\<close> is the error thrown
  again when no error listener is registered).
\<close>

definition afterResolve ::
  "('e unknown \<Rightarrow> string) \<Rightarrow> ('f, 'x, 'o) PromiseQueue \<Rightarrow> 'f \<Rightarrow> ('f, 'x, 'o) PromiseQueue" where
  "afterResolve render pq f =
     (let v = (vars pq)\<lparr>awaiting := remove1 f (awaiting (vars pq))\<rparr>;
          v1 = setActive (activeProcesses v - 1) v;
          v2 = tell (finishActions v1)
                 \<lparr>running = activeProcesses v1, queued = Queue_getSize (queue' pq)\<rparr> v1
      in case attemptStart render (maxConcurrency pq) (queue' pq) v2 of
           (Q', v') \<Rightarrow> pq\<lparr>queue' := Q', vars := v'\<rparr>)"

definition afterReject ::
  "('e unknown \<Rightarrow> string) \<Rightarrow> ('f, 'x, 'o) PromiseQueue \<Rightarrow> 'f \<Rightarrow> 'x \<Rightarrow>
     'x option \<times> ('f, 'x, 'o) PromiseQueue" where
  "afterReject render pq f error =
     (let v = (vars pq)\<lparr>awaiting := remove1 f (awaiting (vars pq))\<rparr>;
          v1 = setActive (activeProcesses v - 1) v
      in if length (errorActions v1) > 0
         then (let v2 = tell (map (\<lambda>action event. action event error) (errorActions v1))
                          \<lparr>running = activeProcesses v1, queued = Queue_getSize (queue' pq)\<rparr> v1
               in case attemptStart render (maxConcurrency pq) (queue' pq) v2 of
                    (Q', v') \<Rightarrow> (None, pq\<lparr>queue' := Q', vars := v'\<rparr>))
         else (Some error, pq\<lparr>vars := v1\<rparr>))"

text \<open>
  \<^verbatim>\<open>queue.onAdd(attemptStart)\<close>: \<^verbatim>\<open>attemptStart\<close> as a listener of the inner queue. The
  inner queue is private and is never given a take listener. \<^verbatim>\<open>onAdd(action)\<close> wraps
  the caller's listener.
\<close>

definition attemptStartAction ::
  "('e unknown \<Rightarrow> string) \<Rightarrow> int \<Rightarrow> ('f, ('f, 'x, 'o) PromiseQueueVars) QueueAction" where
  "attemptStartAction render maxConcurrency' event qv =
     (case attemptStart render maxConcurrency' \<lparr>queue = fst qv, addActions = [], takeActions = []\<rparr> (snd qv) of
        (Q', v') \<Rightarrow> (queue Q', v'))"

definition onAddAction ::
  "(PromiseQueueEvent \<Rightarrow> 'o \<Rightarrow> 'o) \<Rightarrow> ('f, ('f, 'x, 'o) PromiseQueueVars) QueueAction" where
  "onAddAction action event qv =
     (fst qv, tell [action] \<lparr>running = activeProcesses (snd qv), queued = length' event\<rparr> (snd qv))"

definition PromiseQueue :: "('e unknown \<Rightarrow> string) \<Rightarrow> int \<Rightarrow> 'o \<Rightarrow> ('f, 'x, 'o) PromiseQueue" where
  "PromiseQueue render maxConcurrency' ob =
     \<lparr>maxConcurrency = maxConcurrency',
      queue' = Queue_onAdd Queue (attemptStartAction render maxConcurrency'),
      vars = \<lparr>activeProcesses = 0, startActions = [], finishActions = [], errorActions = [],
              invoked = [], awaiting = [], history = [0], told = [],
              observer = ob\<rparr>\<rparr>"

definition PromiseQueue_add :: "('f, 'x, 'o) PromiseQueue \<Rightarrow> 'f \<Rightarrow> ('f, 'x, 'o) PromiseQueue" where
  "PromiseQueue_add pq fn =
     (case Queue_add (queue' pq) fn (vars pq) of (Q', v') \<Rightarrow> pq\<lparr>queue' := Q', vars := v'\<rparr>)"

definition getSize :: "('f, 'x, 'o) PromiseQueue \<Rightarrow> nat" where
  "getSize pq = Queue_getSize (queue' pq)"

definition getRunning :: "('f, 'x, 'o) PromiseQueue \<Rightarrow> int" where
  "getRunning pq = activeProcesses (vars pq)"

definition onAdd :: "('f, 'x, 'o) PromiseQueue \<Rightarrow> (PromiseQueueEvent \<Rightarrow> 'o \<Rightarrow> 'o) \<Rightarrow> ('f, 'x, 'o) PromiseQueue" where
  "onAdd pq action = pq\<lparr>queue' := Queue_onAdd (queue' pq) (onAddAction action)\<rparr>"

definition onStart :: "('f, 'x, 'o) PromiseQueue \<Rightarrow> (PromiseQueueEvent \<Rightarrow> 'o \<Rightarrow> 'o) \<Rightarrow> ('f, 'x, 'o) PromiseQueue" where
  "onStart pq action = pq\<lparr>vars := (vars pq)\<lparr>startActions := startActions (vars pq) @ [action]\<rparr>\<rparr>"

definition onFinish :: "('f, 'x, 'o) PromiseQueue \<Rightarrow> (PromiseQueueEvent \<Rightarrow> 'o \<Rightarrow> 'o) \<Rightarrow> ('f, 'x, 'o) PromiseQueue" where
  "onFinish pq action = pq\<lparr>vars := (vars pq)\<lparr>finishActions := finishActions (vars pq) @ [action]\<rparr>\<rparr>"

definition onError :: "('f, 'x, 'o) PromiseQueue \<Rightarrow> (PromiseQueueEvent \<Rightarrow> 'x \<Rightarrow> 'o \<Rightarrow> 'o) \<Rightarrow> ('f, 'x, 'o) PromiseQueue" where
  "onError pq action = pq\<lparr>vars := (vars pq)\<lparr>errorActions := errorActions (vars pq) @ [action]\<rparr>\<rparr>"

text \<open>
  What can happen to a runner: a call of one of its methods, or the promise of a work
  function that was started settling. Scheduling is cooperative, so each of these runs
  to its end before the next. \<open>runEvents\<close> is \<open>None\<close> when a promise settles that is not
  awaited.
\<close>

datatype ('f, 'x, 'o) event =
    Add 'f
  | Resolved 'f
  | Rejected 'f 'x
  | OnAdd "PromiseQueueEvent \<Rightarrow> 'o \<Rightarrow> 'o"
  | OnStart "PromiseQueueEvent \<Rightarrow> 'o \<Rightarrow> 'o"
  | OnFinish "PromiseQueueEvent \<Rightarrow> 'o \<Rightarrow> 'o"
  | OnError "PromiseQueueEvent \<Rightarrow> 'x \<Rightarrow> 'o \<Rightarrow> 'o"

definition perform ::
  "('e unknown \<Rightarrow> string) \<Rightarrow> ('f, 'x, 'o) PromiseQueue \<Rightarrow> ('f, 'x, 'o) event \<Rightarrow>
     ('f, 'x, 'o) PromiseQueue option" where
  "perform render pq ev =
     (case ev of
        Add fn \<Rightarrow> Some (PromiseQueue_add pq fn)
      | Resolved f \<Rightarrow>
          if f \<in> set (awaiting (vars pq)) then Some (afterResolve render pq f) else None
      | Rejected f error \<Rightarrow>
          if f \<in> set (awaiting (vars pq)) then Some (snd (afterReject render pq f error)) else None
      | OnAdd action \<Rightarrow> Some (onAdd pq action)
      | OnStart action \<Rightarrow> Some (onStart pq action)
      | OnFinish action \<Rightarrow> Some (onFinish pq action)
      | OnError action \<Rightarrow> Some (onError pq action))"

fun runEvents ::
  "('e unknown \<Rightarrow> string) \<Rightarrow> ('f, 'x, 'o) PromiseQueue \<Rightarrow> ('f, 'x, 'o) event list \<Rightarrow>
     ('f, 'x, 'o) PromiseQueue option" where
  "runEvents render pq [] = Some pq"
| "runEvents render pq (ev # evs) =
     (case perform render pq ev of None \<Rightarrow> None | Some pq' \<Rightarrow> runEvents render pq' evs)"

fun submitted :: "('f, 'x, 'o) event list \<Rightarrow> 'f list" where
  "submitted [] = []"
| "submitted (Add fn # evs) = fn # submitted evs"
| "submitted (ev # evs) = submitted evs"

fun isRejected :: "('f, 'x, 'o) event \<Rightarrow> bool" where
  "isRejected (Rejected f error) = True"
| "isRejected ev = False"

text \<open>
  \<open>drainFor n\<close>: up to \<open>n\<close> times, the promise of the oldest started work function
  resolves (work items that resolve after the same delay resolve in the order they were
  started).
\<close>

fun drainFor ::
  "('e unknown \<Rightarrow> string) \<Rightarrow> nat \<Rightarrow> ('f, 'x, 'o) PromiseQueue \<Rightarrow> ('f, 'x, 'o) PromiseQueue" where
  "drainFor render 0 pq = pq"
| "drainFor render (Suc n) pq =
     (case awaiting (vars pq) of
        [] \<Rightarrow> pq
      | f # fs \<Rightarrow> drainFor render n (afterResolve render pq f))"

text \<open>
  The part of a runner that admission depends on, and what \<^verbatim>\<open>attemptStart\<close> does to it.
\<close>

record 'f Core =
  cActive :: int
  cQueue :: "'f list"
  cInvoked :: "'f list"
  cAwaiting :: "'f list"

definition coreOf :: "('f, ('f, 'x, 'o) PromiseQueueVars) Queue \<Rightarrow> ('f, 'x, 'o) PromiseQueueVars \<Rightarrow> 'f Core" where
  "coreOf Q v = \<lparr>cActive = activeProcesses v, cQueue = queue Q, cInvoked = map fst (invoked v),
                 cAwaiting = awaiting v\<rparr>"

definition core :: "('f, 'x, 'o) PromiseQueue \<Rightarrow> 'f Core" where
  "core pq = coreOf (queue' pq) (vars pq)"

definition admit :: "int \<Rightarrow> 'f Core \<Rightarrow> 'f Core" where
  "admit m c =
     (if cActive c < m
      then (case cQueue c of
              [] \<Rightarrow> c
            | f # rest \<Rightarrow> c\<lparr>cActive := cActive c + 1, cQueue := rest,
                            cInvoked := cInvoked c @ [f], cAwaiting := cAwaiting c @ [f]\<rparr>)
      else c)"

definition wellFormed :: "('e unknown \<Rightarrow> string) \<Rightarrow> ('f, 'x, 'o) PromiseQueue \<Rightarrow> bool" where
  "wellFormed render pq =
     (takeActions (queue' pq) = []
      \<and> (\<exists>acts. addActions (queue' pq)
            = attemptStartAction render (maxConcurrency pq) # map onAddAction acts))"

definition bounded :: "int \<Rightarrow> 'f Core \<Rightarrow> bool" where
  "bounded m c = (cActive c = int (length (cAwaiting c)) \<and> cActive c \<le> m)"

definition saturated :: "int \<Rightarrow> 'f Core \<Rightarrow> bool" where
  "saturated m c = (cQueue c = [] \<or> m \<le> cActive c)"

text \<open>
  The limit on everything that was ever there to see: every value the counter has held,
  the last of which is its present value, the running count in every event handed to a
  listener, and the counter at every call of a work function.
\<close>

definition withinLimit :: "int \<Rightarrow> ('f, 'x, 'o) PromiseQueueVars \<Rightarrow> bool" where
  "withinLimit m v =
     (history v \<noteq> [] \<and> last (history v) = activeProcesses v
      \<and> (\<forall>n\<in>set (history v). 0 \<le> n \<and> n \<le> m)
      \<and> (\<forall>event\<in>set (told v). 0 \<le> running event \<and> running event \<le> m)
      \<and> (\<forall>call\<in>set (invoked v). 1 \<le> snd call \<and> snd call \<le> m))"

text \<open>
  The scenario: a runner with \<^verbatim>\<open>maxConcurrency = 2\<close> and five work items, and a listener
  that writes down the running count it is told.
\<close>

definition fiveItems :: "(nat, exception, int list) event list" where
  "fiveItems = [Add 1, Add 2, Add 3, Add 4, Add 5]"

definition runner2 :: "(nat, exception, int list) PromiseQueue" where
  "runner2 = PromiseQueue renderObject 2 []"

definition noteRunning :: "PromiseQueueEvent \<Rightarrow> int list \<Rightarrow> int list" where
  "noteRunning event ob = ob @ [running event]"

definition watchedItems :: "(nat, exception, int list) event list" where
  "watchedItems = OnAdd noteRunning # OnStart noteRunning # OnFinish noteRunning # fiveItems"

section \<open>Pipe builders (structures/pipe.ts)\<close>

text \<open>
  A builder is the function it builds (\<^verbatim>\<open>safeF\<close>); \<^verbatim>\<open>into\<close> and \<^verbatim>\<open>await\<close> wrap it in a new
  builder. An asynchronous step is a state transformer like a synchronous one: awaiting
  it is running it to its end, and a promise that rejects is a call that throws. The
  argument that a step is handed is a bare value.
\<close>

definition pipe ::
  "('e unknown \<Rightarrow> string) \<Rightarrow> 'e \<Rightarrow> ('a \<Rightarrow> ('w, 'e, 'b ResultOr) eff) \<Rightarrow>
     'a ResultOr \<Rightarrow> ('w, 'e, 'b Result) eff" where
  "pipe render typeError f = withResult render typeError f"

definition into ::
  "('e unknown \<Rightarrow> string) \<Rightarrow> 'e \<Rightarrow> ('a ResultOr \<Rightarrow> ('w, 'e, 'b Result) eff) \<Rightarrow>
     ('b \<Rightarrow> ('w, 'e, 'c ResultOr) eff) \<Rightarrow> 'a ResultOr \<Rightarrow> ('w, 'e, 'c Result) eff" where
  "into render typeError safeF g =
     pipe render typeError (\<lambda>arg w.
       case safeF (Bare arg) w of
         (Inl e, w') \<Rightarrow> (Inl e, w')
       | (Inr fResult, w') \<Rightarrow>
           (case withResult render typeError g (IsResult fResult) w' of
              (gResult, w'') \<Rightarrow> (map_sum id IsResult gResult, w'')))"

definition build :: "('a ResultOr \<Rightarrow> ('w, 'e, 'b Result) eff) \<Rightarrow> 'a ResultOr \<Rightarrow> ('w, 'e, 'b Result) eff" where
  "build safeF = safeF"







section \<open>Orchestration of one page (tasks/migrateAndUpdateStudy.ts)\<close>

text \<open>
  \<^verbatim>\<open>MigrationSummary\<close> and the page of the record store. The summary is a variable of
  the run, changed in place: it is the state of the functions that close over it.
\<close>

record Counts =
  successful :: int
  error :: int
  skipped :: int
  processed :: int
  total :: int

record MigrationSummary =
  study :: string
  completed :: bool
  counts :: Counts

record 'p PagedAnalysisResponse =
  analyses :: "'p Analysis list"
  totalAnalyses :: int
  currentTotalAnalyses :: int

text \<open>
  \<^verbatim>\<open>filterSkippedAnalyses\<close>, for the chain \<open>c\<close> of the store \<open>s\<close> in the place of the
  module's \<^verbatim>\<open>consensusSequenceMigrationChain\<close>. The filter callback calls \<^verbatim>\<open>getEnd()\<close> for
  each analysis, so on a chain with no transform it throws at the first analysis;
  \<open>typeError\<close> is that TypeError as a value of the exception type.
\<close>

definition filterSkippedAnalyses ::
  "'e \<Rightarrow> ('w, 'e, 'p) store \<Rightarrow> TransformChain \<Rightarrow> 'p Analysis list \<Rightarrow>
     (MigrationSummary, 'e, 'p Analysis list) eff" where
  "filterSkippedAnalyses typeError s c analyses' summary =
     (case analyses' of
        [] \<Rightarrow> (Inr [], summary)
      | a # as \<Rightarrow>
          (case getEnd s c of
             Inl TypeError \<Rightarrow> (Inl typeError, summary)
           | Inr end' \<Rightarrow>
               (let filtered = filter (\<lambda>analysis. version (analysisType analysis) < version end') analyses';
                    skipped' = int (length analyses') - int (length filtered)
                in (Inr filtered,
                    summary\<lparr>counts := (counts summary)\<lparr>skipped := skipped (counts summary) + skipped',
                       processed := processed (counts summary) + skipped'\<rparr>\<rparr>))))"

text \<open>
  \<^verbatim>\<open>applyMigrationsToPage = pipe(page => page.analyses).into(filterSkippedAnalyses)
  .into(migrateAnalyses).build()\<close>. The migrate step is a parameter here. The world of the
  pipeline is the summary together with the world of the transformers and of the update.
  A page is parsed by a schema that keeps only its declared properties, and the other
  values handed from step to step are arrays: none has a \<^verbatim>\<open>success\<close> property.
\<close>

definition applyMigrationsToPage ::
  "('e unknown \<Rightarrow> string) \<Rightarrow> 'e \<Rightarrow> ('w, 'e, 'p) store \<Rightarrow> TransformChain \<Rightarrow>
     ('p Analysis list \<Rightarrow> (MigrationSummary \<times> 'w, 'e, 'r ResultOr) eff) \<Rightarrow>
     'p PagedAnalysisResponse ResultOr \<Rightarrow> (MigrationSummary \<times> 'w, 'e, 'r Result) eff" where
  "applyMigrationsToPage render typeError s c migrateAnalyses' =
     build
       (into render typeError
          (into render typeError
             (pipe render typeError (\<lambda>page st. (Inr (Bare (analyses page)), st)))
             (\<lambda>analyses' st.
                case filterSkippedAnalyses typeError s c analyses' (fst st) of
                  (r, summary') \<Rightarrow> (map_sum id Bare r, (summary', snd st))))
          migrateAnalyses')"








text \<open>
  Examples: an empty summary, records of another schema family, a page of four records,
  an update that succeeds, a fetch that returns the page, and a migrate step that counts.
  Then a store whose records have, beside their type, at most a field \<^verbatim>\<open>success: false\<close>,
  with the transform \<open>1 \<rightarrow> 2\<close> that keeps the record as it is, and the record of another
  family at version 1 that has this field.
\<close>

definition summary0 :: MigrationSummary where
  "summary0 = \<lparr>study = ''S'', completed = False,
      counts = \<lparr>successful = 0, error = 0, skipped = 0, processed = 0, total = 0\<rparr>\<rparr>"

definition other :: "int \<Rightarrow> nat Analysis" where
  "other n = \<lparr>analysisType = \<lparr>name = ''other'', version = n\<rparr>, payload = 0\<rparr>"

definition page1 :: "nat PagedAnalysisResponse" where
  "page1 = \<lparr>analyses = [other 9, rec1, other 2, \<lparr>analysisType = vers 4, payload = 0\<rparr>],
             totalAnalyses = 4, currentTotalAnalyses = 4\<rparr>"



definition countStep :: "nat Analysis list \<Rightarrow> (MigrationSummary \<times> nat, exception, nat ResultOr) eff" where
  "countStep as st = (Inr (Bare (length as)), (fst st, Suc (snd st)))"






section \<open>Properties of the Result algebra\<close>

lemma failure_Str [simp]: "failure render (map Str errs) = Failure errs"
  by (simp add: failure_def unknownToString_def comp_def)

lemma failure_Thrown [simp]: "failure render [Thrown e] = Failure [render (Thrown e)]"
  by (simp add: failure_def unknownToString_def)

lemma withResult_Failure [simp]:
  "withResult render typeError fn (IsResult (Failure errs)) w = (Inr (Failure errs), w)"
  by (simp add: withResult_def asResult_def errorList_def)

lemma withResult_Malformed [simp]:
  "withResult render typeError fn (IsResult Malformed) w = (Inl typeError, w)"
  by (simp add: withResult_def asResult_def errorList_def)

lemma withResult_Success:
  "withResult render typeError fn (IsResult (Success d)) w =
     (case fn d w of
        (Inr v, w') \<Rightarrow> (Inr (asResult v), w')
      | (Inl e, w') \<Rightarrow> (Inr (Failure [render (Thrown e)]), w'))"
  by (simp add: withResult_def asResult_def split: prod.splits sum.splits)

lemma withResult_Bare: "withResult render typeError fn (Bare d) = withResult render typeError fn (IsResult (Success d))"
  by (rule ext) (simp add: withResult_def asResult_def success_def)




text \<open>
  C5, as the code has it, for an argument that is a Failure, a Success, or a value
  without a boolean \<^verbatim>\<open>success\<close> property. The function made by \<^verbatim>\<open>withResult(f)\<close>, given a
  Failure, returns a Failure with the same errors in the same order and leaves the world
  untouched whatever \<open>f\<close> is, so \<open>f\<close> is not called. Given a Success or such a value it
  runs \<open>f\<close> on the payload: when \<open>f\<close> throws \<open>e\<close> the result is the Failure made from \<open>e\<close>
  (nothing propagates: the function returns a Result), and when \<open>f\<close> returns \<open>v\<close> the
  result is \<^verbatim>\<open>asResult(v)\<close>.
\<close>

theorem withResult_contract:
  "withResult render typeError f (IsResult (Failure errs)) w = (Inr (Failure errs), w)
   \<and> (\<forall>input d. input = IsResult (Success d) \<or> input = Bare d \<longrightarrow>
        (\<forall>e w'. f d w = (Inl e, w') \<longrightarrow>
           withResult render typeError f input w = (Inr (Failure [render (Thrown e)]), w'))
        \<and> (\<forall>v w'. f d w = (Inr v, w') \<longrightarrow>
           withResult render typeError f input w = (Inr (asResult v), w')))"
  by (auto simp: withResult_Bare withResult_Success)

theorem withResult_contract_witness:
  "withResult renderObject TypeErr halve (IsResult (Failure [''a'', ''b''])) 0
     = (Inr (Failure [''a'', ''b'']), 0)
   \<and> halve 0 0 = (Inl Boom, 1)
   \<and> withResult renderObject TypeErr halve (IsResult (Success 0)) 0
       = (Inr (Failure [''[object Object]'']), 1)
   \<and> halve 6 0 = (Inr (Bare 3), 1)
   \<and> withResult renderObject TypeErr halve (Bare 6) 0 = (Inr (Success 3), 1)"
proof -
  have t: "halve 0 0 = (Inl Boom, 1)" and r: "halve 6 0 = (Inr (Bare 3), 1)"
    by (simp_all add: halve_def)
  note c = withResult_contract [of renderObject TypeErr halve "[''a'', ''b'']" 0]
  from c have 1: "withResult renderObject TypeErr halve (IsResult (Failure [''a'', ''b''])) 0
      = (Inr (Failure [''a'', ''b'']), 0)"
    by blast
  from c t have 2: "withResult renderObject TypeErr halve (IsResult (Success 0)) 0
      = (Inr (Failure [renderObject (Thrown Boom)]), 1)"
    by blast
  from c r have 3: "withResult renderObject TypeErr halve (Bare 6) 0 = (Inr (asResult (Bare 3)), 1)"
    by blast
  from 1 2 3 t r show ?thesis
    by (simp add: renderObject_def asResult_def success_def)
qed

text \<open>
  C5 as stated fails for an argument that has \<^verbatim>\<open>success: false\<close> and no \<^verbatim>\<open>errors\<close> that can
  be spread, \<^verbatim>\<open>{ success: false }\<close> say. \<^verbatim>\<open>asResult\<close> returns it as it is, the function made
  by \<^verbatim>\<open>withResult\<close> throws a TypeError, which propagates, and the step is not called (its
  count of calls stays 0): no Failure comes back, and nothing is run on a payload.
\<close>

theorem withResult_malformed_counterexample:
  "asResult (IsResult Malformed :: nat ResultOr) = Malformed
   \<and> withResult renderObject TypeErr halve (IsResult Malformed) 0 = (Inl TypeErr, 0)"
  by (simp add: withResult_def asResult_def errorList_def)

section \<open>Properties of transforms and chains\<close>

lemma joins_Nil [simp]: "joins chain []"
  by (simp add: joins_def)

lemma joins_Cons:
  "joins chain (t # ts) = ((chain = [] \<or> end (last chain) = start t) \<and> joins (chain @ [t]) ts)"
  by (cases chain; cases ts) (auto simp: joins_def split: list.splits)

lemma forEachTransform_ok:
  "c < length s \<Longrightarrow> joins (s ! c) ts \<Longrightarrow>
     forEachTransform c i ts s = (Inr (), s[c := s ! c @ ts])"
proof (induction ts arbitrary: s i)
  case Nil
  then show ?case by simp
next
  case (Cons t ts)
  from Cons.prems(2) have j: "s ! c = [] \<or> end (last (s ! c)) = start t"
    and r: "joins (s ! c @ [t]) ts"
    by (simp_all add: joins_Cons)
  let ?s = "s[c := s ! c @ [t]]"
  from Cons.prems(1) have "c < length ?s" "?s ! c = s ! c @ [t]" by simp_all
  with r Cons.IH [of ?s "i + 1"] have "forEachTransform c (i + 1) ts ?s = (Inr (), ?s[c := ?s ! c @ ts])"
    by simp
  with j Cons.prems(1) show ?case by (auto simp: Let_def)
qed

lemma forEachTransform_fail:
  "c < length s \<Longrightarrow> joins (s ! c) pre \<Longrightarrow> s ! c @ pre \<noteq> [] \<Longrightarrow>
   end (last (s ! c @ pre)) \<noteq> start t \<Longrightarrow>
     forEachTransform c i (pre @ t # post) s
       = (Inl (connectError (i + length pre) t (end (last (s ! c @ pre)))), s[c := s ! c @ pre])"
proof (induction pre arbitrary: s i)
  case Nil
  then show ?case by (auto simp: Let_def)
next
  case (Cons p pre)
  from Cons.prems(2) have j: "s ! c = [] \<or> end (last (s ! c)) = start p"
    and r: "joins (s ! c @ [p]) pre"
    by (simp_all add: joins_Cons)
  let ?s = "s[c := s ! c @ [p]]"
  from Cons.prems(1) have l: "c < length ?s" and e: "?s ! c = s ! c @ [p]" by simp_all
  from Cons.prems(4) have n: "end (last (?s ! c @ pre)) \<noteq> start t"
    using e by simp
  have "forEachTransform c (i + 1) (pre @ t # post) ?s
       = (Inl (connectError (i + 1 + length pre) t (end (last (?s ! c @ pre)))), ?s[c := ?s ! c @ pre])"
    using Cons.IH [OF l _ _ n, of "i + 1"] r e by simp
  with j Cons.prems(1) show ?case by (auto simp: Let_def)
qed

lemma successively_nth:
  "successively P xs = (\<forall>i. Suc i < length xs \<longrightarrow> P (xs ! i) (xs ! Suc i))"
proof (induction P xs rule: successively.induct)
  case (3 P x y xs)
  show ?case
  proof
    assume a: "successively P (x # y # xs)"
    show "\<forall>i. Suc i < length (x # y # xs) \<longrightarrow> P ((x # y # xs) ! i) ((x # y # xs) ! Suc i)"
    proof (intro allI impI)
      fix i assume "Suc i < length (x # y # xs)"
      with a 3 show "P ((x # y # xs) ! i) ((x # y # xs) ! Suc i)"
        by (cases i) auto
    qed
  next
    assume a: "\<forall>i. Suc i < length (x # y # xs) \<longrightarrow> P ((x # y # xs) ! i) ((x # y # xs) ! Suc i)"
    from a [rule_format, of 0] have "P x y" by simp
    moreover have "\<forall>i. Suc i < length (y # xs) \<longrightarrow> P ((y # xs) ! i) ((y # xs) ! Suc i)"
      using a [rule_format, of "Suc _"] by auto
    ultimately show "successively P (x # y # xs)" using 3 by simp
  qed
qed simp_all

lemma extendTransformChain_ok:
  "joins baseChain ts \<Longrightarrow>
     extendTransformChain render baseChain ts s = (Success (length s), s @ [baseChain @ ts])"
  using forEachTransform_ok [of "length s" "s @ [baseChain]" ts 0]
  by (simp add: extendTransformChain_def asResult_def success_def)

lemma extendTransformChain_fail:
  "joins baseChain pre \<Longrightarrow> baseChain @ pre \<noteq> [] \<Longrightarrow>
   end (last (baseChain @ pre)) \<noteq> start t \<Longrightarrow>
     extendTransformChain render baseChain (pre @ t # post) s
       = (Failure [connectError (length pre) t (end (last (baseChain @ pre)))],
          s @ [baseChain @ pre])"
  using forEachTransform_fail [of "length s" "s @ [baseChain]" pre t 0 post]
  by (simp add: extendTransformChain_def failure_def unknownToString_def)

lemma not_joins_split:
  "\<not> joins chain ts \<Longrightarrow>
     \<exists>pre t post. ts = pre @ t # post \<and> joins chain pre \<and> chain @ pre \<noteq> []
        \<and> end (last (chain @ pre)) \<noteq> start t"
proof (induction ts arbitrary: chain)
  case Nil
  then show ?case by simp
next
  case (Cons a ts)
  show ?case
  proof (cases "chain = [] \<or> end (last chain) = start a")
    case True
    with Cons.prems have "\<not> joins (chain @ [a]) ts" by (simp add: joins_Cons)
    from Cons.IH [OF this] obtain pre t post where
      "ts = pre @ t # post" "joins (chain @ [a]) pre" "end (last ((chain @ [a]) @ pre)) \<noteq> start t"
      by blast
    with True have "a # ts = (a # pre) @ t # post \<and> joins chain (a # pre) \<and> chain @ a # pre \<noteq> []
        \<and> end (last (chain @ a # pre)) \<noteq> start t"
      by (simp add: joins_Cons)
    then show ?thesis by blast
  next
    case False
    then have "a # ts = [] @ a # ts \<and> joins chain [] \<and> chain @ [] \<noteq> []
        \<and> end (last (chain @ [])) \<noteq> start a"
      by simp
    then show ?thesis by blast
  qed
qed

lemma extendTransformChain_success_iff:
  "is_success (fst (extendTransformChain render baseChain ts s)) = joins baseChain ts"
proof (cases "joins baseChain ts")
  case True
  then show ?thesis by (simp add: extendTransformChain_ok)
next
  case False
  from not_joins_split [OF this] obtain pre t post where
    "ts = pre @ t # post" "joins baseChain pre" "baseChain @ pre \<noteq> []"
    "end (last (baseChain @ pre)) \<noteq> start t"
    by blast
  with False show ?thesis by (simp add: extendTransformChain_fail)
qed

lemma joins_Nil_left: "joins [] ts = connected ts"
  by (cases ts) (simp_all add: joins_def connected_def successively_nth)

lemma createTransformChain_ok:
  "connected ts \<Longrightarrow> createTransformChain render ts s = (Success (length s), s @ [ts])"
  by (simp add: createTransformChain_def extendTransformChain_ok joins_Nil_left)

lemma createTransformChain_success_iff:
  "is_success (fst (createTransformChain render ts s)) = connected ts"
  by (simp add: createTransformChain_def extendTransformChain_success_iff joins_Nil_left)

lemma createTransformChain_fail:
  "connected (pre @ [p]) \<Longrightarrow> end p \<noteq> start t \<Longrightarrow>
     createTransformChain render (pre @ p # t # post) s
       = (Failure [connectError (Suc (length pre)) t (end p)], s @ [pre @ [p]])"
  using extendTransformChain_fail [of "[]" "pre @ [p]" t render post s]
  by (simp add: createTransformChain_def joins_Nil_left)

lemma findIndex_neg: "(findIndex xs P < 0) = (\<forall>x\<in>set xs. \<not> P x)"
  by (induction xs) (auto simp: Let_def)

lemma findIndex_nonneg: "\<not> findIndex xs P < 0 \<Longrightarrow> findIndex xs P = int (length (takeWhile (\<lambda>x. \<not> P x) xs))"
  by (induction xs) (auto simp: Let_def split: if_splits)

lemma takeWhile_shorter: "\<exists>x\<in>set xs. P x \<Longrightarrow> length (takeWhile (\<lambda>x. \<not> P x) xs) < length xs"
  by (induction xs) auto

lemma drop_takeWhile_length: "drop (length (takeWhile Q xs)) xs = dropWhile Q xs"
  by (induction xs) auto

lemma sliceFrom_found:
  "\<exists>x\<in>set xs. P x \<Longrightarrow> sliceFrom render xs P = Success (dropWhile (\<lambda>x. \<not> P x) xs)"
  by (auto simp: sliceFrom_def Let_def findIndex_neg findIndex_nonneg success_def drop_takeWhile_length)

lemma sliceFrom_missing:
  "\<forall>x\<in>set xs. \<not> P x \<Longrightarrow> sliceFrom render xs P
     = Failure [''Unable to find item in array that matches provided starting position test.'']"
  by (simp add: sliceFrom_def Let_def findIndex_neg failure_def unknownToString_def)

lemma sliceTo_found:
  "\<exists>x\<in>set xs. P x \<Longrightarrow>
     sliceTo render xs P True = Success (takeWhile (\<lambda>x. \<not> P x) xs @ [hd (dropWhile (\<lambda>x. \<not> P x) xs)])"
proof -
  assume a: "\<exists>x\<in>set xs. P x"
  let ?n = "length (takeWhile (\<lambda>x. \<not> P x) xs)"
  from a have n: "?n < length xs"
    by (rule takeWhile_shorter)
  have d: "dropWhile (\<lambda>x. \<not> P x) xs = drop ?n xs" by (simp add: drop_takeWhile_length)
  have "take (Suc ?n) xs = take ?n xs @ [xs ! ?n]" using n by (simp add: take_Suc_conv_app_nth)
  moreover have "take ?n xs = takeWhile (\<lambda>x. \<not> P x) xs"
    by (metis takeWhile_eq_take)
  moreover have "hd (drop ?n xs) = xs ! ?n" using n by (simp add: hd_drop_conv_nth)
  ultimately have "take (Suc ?n) xs = takeWhile (\<lambda>x. \<not> P x) xs @ [hd (dropWhile (\<lambda>x. \<not> P x) xs)]"
    using d by simp
  moreover from a have "\<not> findIndex xs P < 0" by (simp add: findIndex_neg)
  ultimately show ?thesis
    by (simp add: sliceTo_def Let_def findIndex_nonneg success_def nat_add_distrib del: take_Suc_conv_app_nth)
qed

lemma from_ok:
  "\<exists>t\<in>set (s ! c). start t = v \<Longrightarrow>
     from render c v s = (Success (length s), s @ [dropWhile (\<lambda>t. start t \<noteq> v) (s ! c)])"
  using sliceFrom_found [of "s ! c" "\<lambda>t. start t = v" render]
  by (simp add: from_def Let_def extendTransformChain_ok)

lemma from_fail:
  "\<forall>t\<in>set (s ! c). start t \<noteq> v \<Longrightarrow>
     from render c v s
       = (Failure [''Migration chain does not have a transform to start from for analyses of this type'',
                   render (VersionObj v),
                   ''Unable to find item in array that matches provided starting position test.''], s)"
  using sliceFrom_missing [of "s ! c" "\<lambda>t. start t = v" render]
  by (simp add: from_def Let_def failure_def unknownToString_def)

lemma to_ok:
  "\<exists>t\<in>set (s ! c). end t = v \<Longrightarrow>
     to render c v s = (Success (length s),
        s @ [takeWhile (\<lambda>t. end t \<noteq> v) (s ! c) @ [hd (dropWhile (\<lambda>t. end t \<noteq> v) (s ! c))]])"
  using sliceTo_found [of "s ! c" "\<lambda>t. end t = v" render]
  by (simp add: to_def Let_def extendTransformChain_ok)

lemma to_fail:
  "\<forall>t\<in>set (s ! c). end t \<noteq> v \<Longrightarrow> \<not> is_success (fst (to render c v s))"
  by (simp add: to_def Let_def sliceTo_def findIndex_neg failure_def)

lemma add_ok:
  "s ! c = [] \<or> end (last (s ! c)) = start t \<Longrightarrow>
     add render c t s = (Success (length s), s @ [s ! c @ [t]])"
  by (simp add: add_def extendTransformChain_ok joins_Cons)

lemma add_fail:
  "s ! c \<noteq> [] \<Longrightarrow> end (last (s ! c)) \<noteq> start t \<Longrightarrow> \<not> is_success (fst (add render c t s))"
  using extendTransformChain_fail [of "s ! c" "[]" t render "[]" s]
  by (simp add: add_def)

lemma takeWhile_butlast:
  "xs \<noteq> [] \<Longrightarrow> \<forall>x\<in>set (butlast xs). Q x \<Longrightarrow> \<not> Q (last xs) \<Longrightarrow>
     takeWhile Q xs = butlast xs \<and> dropWhile Q xs = [last xs]"
  by (induction xs) auto

lemma dropWhile_last: "dropWhile Q xs \<noteq> [] \<Longrightarrow> last (dropWhile Q xs) = last xs"
  by (induction xs) auto

lemma from_then_to_aux:
  assumes f: "from render c v s = (Success c1, s1)"
    and e: "getEnd s c = Inr e"
    and d: "\<forall>t\<in>set (butlast (dropWhile (\<lambda>t. start t \<noteq> v) (s ! c))). end t \<noteq> e"
  shows "to render c1 e s1 = (Success (length s1), s1 @ [dropWhile (\<lambda>t. start t \<noteq> v) (s ! c)])"
proof -
  let ?suffix = "dropWhile (\<lambda>t. start t \<noteq> v) (s ! c)"
  have ex: "\<exists>t\<in>set (s ! c). start t = v"
  proof (rule ccontr)
    assume "\<not> ?thesis"
    then have "\<forall>t\<in>set (s ! c). start t \<noteq> v" by blast
    from from_fail [OF this] f show False by simp
  qed
  from from_ok [OF ex] f have c1: "c1 = length s" and s1: "s1 = s @ [?suffix]" by simp_all
  from ex have ne: "?suffix \<noteq> []" by (simp add: dropWhile_eq_Nil_conv)
  from e have "s ! c \<noteq> []" and "e = end (last (s ! c))"
    by (auto simp: getEnd_def split: list.splits)
  with ne have l: "end (last ?suffix) = e" by (simp add: dropWhile_last)
  have arr: "s1 ! c1 = ?suffix" by (simp add: c1 s1)
  from ne l have "\<exists>t\<in>set ?suffix. end t = e" using last_in_set by blast
  from to_ok [of s1 c1 e render] this arr
  have t: "to render c1 e s1 = (Success (length s1),
        s1 @ [takeWhile (\<lambda>t. end t \<noteq> e) ?suffix @ [hd (dropWhile (\<lambda>t. end t \<noteq> e) ?suffix)]])"
    by simp
  from takeWhile_butlast [of ?suffix "\<lambda>t. end t \<noteq> e"] ne d l
  have "takeWhile (\<lambda>t. end t \<noteq> e) ?suffix = butlast ?suffix"
    and "dropWhile (\<lambda>t. end t \<noteq> e) ?suffix = [last ?suffix]"
    by simp_all
  with ne have "takeWhile (\<lambda>t. end t \<noteq> e) ?suffix @ [hd (dropWhile (\<lambda>t. end t \<noteq> e) ?suffix)] = ?suffix"
    by simp
  with t show ?thesis by simp
qed

lemma connected_successively: "connected ts = successively (\<lambda>a b. end a = start b) ts"
  by (simp add: connected_def successively_nth)

lemma step_sel [simp]: "start (step a b k) = vers a" "end (step a b k) = vers b"
  by (simp_all add: step_def defineTransform_def)

lemma vers_eq [simp]: "(vers a = vers b) = (a = b)"
  by (simp add: vers_def)

lemma step_apply:
  "apply (step a b k) r calls =
     (if analysisType r \<noteq> vers a
      then (Inr (Failure [''Analysis type does not match expected input type'']), calls)
      else (Inr (Success (r\<lparr>payload := payload r + k, analysisType := vers b\<rparr>)), Suc calls))"
  by (simp add: step_def defineTransform_def bump_def success_def failure_def unknownToString_def)

lemma applyAll_Nil: "applyAll render typeError look [] a w = (Inr (asResult (look a)), w)"
  by (simp add: applyAll_def)


lemma foldl_applyStep_Inl:
  "foldl (applyStep render typeError) (Inl e, w) ts = (Inl e, w)"
  by (induction ts) (simp_all add: applyStep_def)


lemma applyStep_Success:
  "applyStep render typeError (Inr (Success a), w) t =
     (case apply t a w of
        (Inr r, w') \<Rightarrow> (Inr r, w')
      | (Inl e, w') \<Rightarrow> (Inr (Failure [render (Thrown e)]), w'))"
  by (auto simp: applyStep_def withResult_Success asResult_def split: prod.splits sum.splits)

lemma nonEmptyChain_iff: "nonEmptyChain s c = (s ! c \<noteq> [])"
  by (simp add: nonEmptyChain_def getStart_def getEnd_def split: list.splits)

lemma newChain_append: "newChain s (length s) (s @ [ts])"
  by (simp add: newChain_def)

text \<open>
  C1, at a failing input. Two transforms that do not connect, \<open>1 \<rightarrow> 2\<close> then \<open>3 \<rightarrow> 4\<close>:
  construction fails, at index 1, and the message expects version 2, the end of the
  previous transform. The version it prints as received is 4, the end of the offending
  transform, where the claim has its start, 3.
\<close>

theorem createTransformChain_received_end:
  \<open>createTransformChain renderObject [step 1 2 1, step 3 4 1] []
     = (Failure [''Transform provided at index 1 does not connect to the transform chain. Received: {"name":"cs","version":4} - Expected: {"name":"cs","version":2}''],
        [[step 1 2 1]])\<close>
proof -
  have c: "connected ([] @ [step 1 2 1])" by (simp add: connected_successively)
  have n: "end (step 1 2 1) \<noteq> start (step 3 4 1)" by simp
  from createTransformChain_fail [OF c n, of renderObject "[]" "[]"]
  have "createTransformChain renderObject [step 1 2 1, step 3 4 1] []
     = (Failure [connectError 1 (step 3 4 1) (vers 2)], [[step 1 2 1]])"
    by simp
  moreover have \<open>connectError 1 (step 3 4 1) (vers 2) = ''Transform provided at index 1 does not connect to the transform chain. Received: {"name":"cs","version":4} - Expected: {"name":"cs","version":2}''\<close>
    by (simp add: connectError_def JSON_stringify_def numberToString_def quoteJSONString_def
          quoteChar_def digit_def vers_def)
  ultimately show ?thesis by simp
qed

text \<open>
  C2. A transform built by \<^verbatim>\<open>defineTransform({start, end}, f)\<close> carries the two versions.
  Applied to a record whose \<^verbatim>\<open>analysisType\<close> is not \<open>start\<close> it returns the type-mismatch
  Failure and leaves the world untouched whatever \<open>f\<close> is: \<open>f\<close> is not called and nothing
  is modified. Whenever it returns a Success, the returned record's \<^verbatim>\<open>analysisType\<close> is
  \<open>end\<close>, and the input's was \<open>start\<close>.
\<close>

theorem defineTransform_apply:
  "start (defineTransform render versions f) = start versions
   \<and> end (defineTransform render versions f) = end versions
   \<and> (analysisType r \<noteq> start versions \<longrightarrow>
        apply (defineTransform render versions f) r w
          = (Inr (Failure [''Analysis type does not match expected input type'']), w))
   \<and> (\<forall>r' w'. apply (defineTransform render versions f) r w = (Inr (Success r'), w') \<longrightarrow>
        analysisType r' = end versions \<and> analysisType r = start versions)"
proof (intro conjI allI impI)
  fix r' w'
  assume a: "apply (defineTransform render versions f) r w = (Inr (Success r'), w')"
  show "analysisType r = start versions"
  proof (rule ccontr)
    assume "analysisType r \<noteq> start versions"
    with a show False
      by (simp add: defineTransform_def failure_def)
  qed
  with a obtain tr where t: "f r w = (Inr tr, w')"
      and b: "(if \<not> is_success tr
               then failure render [Str ''Error applying transform'', VersionsObj versions, FailureObj (errorList tr)]
               else success ((data tr)\<lparr>analysisType := end versions\<rparr>)) = Success r'"
    by (cases "f r w"; cases "fst (f r w)") (auto simp: defineTransform_def split: if_splits)
  then have "r' = (data tr)\<lparr>analysisType := end versions\<rparr>"
    by (cases "is_success tr") (simp_all add: failure_def success_def)
  then show "analysisType r' = end versions" by simp
qed (simp_all add: defineTransform_def failure_def unknownToString_def)

theorem defineTransform_apply_witness:
  "analysisType rec2 \<noteq> start \<lparr>start = vers 1, end = vers 2\<rparr>
   \<and> apply (step 1 2 5) rec2 0 = (Inr (Failure [''Analysis type does not match expected input type'']), 0)
   \<and> apply (step 1 2 5) rec1 0 = (Inr (Success \<lparr>analysisType = vers 2, payload = 5\<rparr>), 1)
   \<and> analysisType \<lparr>analysisType = vers 2, payload = 5::nat\<rparr> = end \<lparr>start = vers 1, end = vers 2\<rparr>"
proof -
  let ?T = "defineTransform renderObject \<lparr>start = vers 1, end = vers 2\<rparr> (bump 5)"
  note t = defineTransform_apply [of renderObject "\<lparr>start = vers 1, end = vers 2\<rparr>" "bump 5" _ 0]
  have n: "analysisType rec2 \<noteq> start \<lparr>start = vers 1, end = vers 2\<rparr>"
    by (simp add: rec2_def)
  from t [of rec2] n have 1: "apply ?T rec2 0
      = (Inr (Failure [''Analysis type does not match expected input type'']), 0)"
    by blast
  have a: "apply ?T rec1 0 = (Inr (Success \<lparr>analysisType = vers 2, payload = 5\<rparr>), 1)"
    using step_apply [of 1 2 5 rec1 0] by (simp add: step_def rec1_def)
  from t [of rec1] a have 2: "analysisType \<lparr>analysisType = vers 2, payload = 5::nat\<rparr>
      = end \<lparr>start = vers 1, end = vers 2\<rparr>"
    by blast
  have s: "step 1 2 5 = ?T" by (simp add: step_def)
  from n 1 a 2 show ?thesis unfolding s by blast
qed

text \<open>
  C3, as the code has it. \<^verbatim>\<open>c.from(v)\<close> fails exactly when no transform of \<open>c\<close> starts at
  \<open>v\<close>. When it succeeds, and no transform of the suffix that begins at the first
  transform starting at \<open>v\<close>, other than the last one, ends at \<^verbatim>\<open>c.getEnd()\<close>, then
  \<^verbatim>\<open>to(c.getEnd())\<close> on the result succeeds and the chain it returns, applied to any
  record in any world, gives what applying that suffix gives.
\<close>

theorem from_then_to:
  "((\<not> is_success (fst (from render c v s))) = (\<forall>t\<in>set (s ! c). start t \<noteq> v))
   \<and> (\<forall>c1 s1 e. from render c v s = (Success c1, s1) \<and> getEnd s c = Inr e
          \<and> (\<forall>t\<in>set (butlast (dropWhile (\<lambda>t. start t \<noteq> v) (s ! c))). end t \<noteq> e)
        \<longrightarrow> (\<exists>c2 s2. to render c1 e s1 = (Success c2, s2)
              \<and> applyChain render typeError look s2 c2 analysis w
                  = applyAll render typeError look (dropWhile (\<lambda>t. start t \<noteq> v) (s ! c)) analysis w))"
proof (intro conjI allI impI)
  show "(\<not> is_success (fst (from render c v s))) = (\<forall>t\<in>set (s ! c). start t \<noteq> v)"
  proof (cases "\<exists>t\<in>set (s ! c). start t = v")
    case True
    with from_ok [OF True, of render] show ?thesis by auto
  next
    case False
    then have "\<forall>t\<in>set (s ! c). start t \<noteq> v" by blast
    with from_fail [OF this, of render] show ?thesis by simp
  qed
next
  fix c1 s1 e
  assume a: "from render c v s = (Success c1, s1) \<and> getEnd s c = Inr e
          \<and> (\<forall>t\<in>set (butlast (dropWhile (\<lambda>t. start t \<noteq> v) (s ! c))). end t \<noteq> e)"
  then have "to render c1 e s1 = (Success (length s1), s1 @ [dropWhile (\<lambda>t. start t \<noteq> v) (s ! c)])"
    using from_then_to_aux by blast
  then show "\<exists>c2 s2. to render c1 e s1 = (Success c2, s2)
              \<and> applyChain render typeError look s2 c2 analysis w
                  = applyAll render typeError look (dropWhile (\<lambda>t. start t \<noteq> v) (s ! c)) analysis w"
    by (simp add: applyChain_def)
qed

theorem from_then_to_witness:
  "is_success (fst (from renderObject 0 (vers 2) [linear]))
   \<and> \<not> is_success (fst (from renderObject 0 (vers 7) [linear]))
   \<and> from renderObject 0 (vers 2) [linear] = (Success 1, [linear, [step 2 3 10, step 3 4 100]])
   \<and> getEnd [linear] 0 = Inr (vers 4)
   \<and> to renderObject 1 (vers 4) [linear, [step 2 3 10, step 3 4 100]]
        = (Success 2, [linear, [step 2 3 10, step 3 4 100], [step 2 3 10, step 3 4 100]])
   \<and> applyChain renderObject TypeErr Bare
          [linear, [step 2 3 10, step 3 4 100], [step 2 3 10, step 3 4 100]] 2 rec2 0
        = (Inr (Success \<lparr>analysisType = vers 4, payload = 110\<rparr>), 2)"
proof -
  let ?suffix = "[step 2 3 10, step 3 4 100]"
  have d: "dropWhile (\<lambda>t. start t \<noteq> vers 2) ([linear] ! 0) = ?suffix"
    by (simp add: linear_def)
  have f: "from renderObject 0 (vers 2) [linear] = (Success 1, [linear, ?suffix])"
    using from_ok [of "[linear]" 0 "vers 2" renderObject] by (simp add: linear_def)
  have e: "getEnd [linear] 0 = Inr (vers 4)" by (simp add: getEnd_def linear_def)
  have b: "\<forall>t\<in>set (butlast (dropWhile (\<lambda>t. start t \<noteq> vers 2) ([linear] ! 0))). end t \<noteq> vers 4"
    by (simp add: linear_def)
  have s7: "\<forall>t\<in>set ([linear] ! 0). start t \<noteq> vers 7" by (simp add: linear_def)
  have s2: "\<not> (\<forall>t\<in>set ([linear] ! 0). start t \<noteq> vers 2)" by (simp add: linear_def)
  note t = from_then_to [of renderObject 0 _ "[linear]" TypeErr Bare rec2 0]
  from t [of "vers 7"] s7 have 1: "\<not> is_success (fst (from renderObject 0 (vers 7) [linear]))" by blast
  from t [of "vers 2"] s2 have 2: "is_success (fst (from renderObject 0 (vers 2) [linear]))" by blast
  from t [of "vers 2"] f e b obtain c2 s2 where
    to: "to renderObject 1 (vers 4) [linear, ?suffix] = (Success c2, s2)"
    and ap: "applyChain renderObject TypeErr Bare s2 c2 rec2 0
        = applyAll renderObject TypeErr Bare (dropWhile (\<lambda>t. start t \<noteq> vers 2) ([linear] ! 0)) rec2 0"
    by blast
  have to': "to renderObject 1 (vers 4) [linear, ?suffix] = (Success 2, [linear, ?suffix, ?suffix])"
    using to_ok [of "[linear, ?suffix]" 1 "vers 4" renderObject] by simp
  have "applyAll renderObject TypeErr Bare ?suffix rec2 0
      = (Inr (Success \<lparr>analysisType = vers 4, payload = 110\<rparr>), 2)"
    by (simp add: applyAll_def asResult_def success_def applyStep_Success step_apply rec2_def)
  with ap to to' d have 3: "applyChain renderObject TypeErr Bare [linear, ?suffix, ?suffix] 2 rec2 0
        = (Inr (Success \<lparr>analysisType = vers 4, payload = 110\<rparr>), 2)"
    by simp
  from 1 2 3 f e to' show ?thesis by simp
qed

text \<open>
  C3 as stated fails on a chain that comes back to a version: \<open>1 \<rightarrow> 2\<close>, \<open>2 \<rightarrow> 1\<close>, \<open>1 \<rightarrow> 2\<close>
  is built successfully and ends at version 2; \<^verbatim>\<open>from\<close> version 1 keeps all three
  transforms, but \<^verbatim>\<open>to\<close> version 2 then cuts after the first transform that ends at
  version 2, which is the first one. Applied to a record at version 1, the sliced chain
  runs one transform and the suffix runs three.
\<close>

theorem from_then_to_counterexample:
  "fst (createTransformChain renderObject cyclic []) = Success 0
   \<and> getEnd (snd (createTransformChain renderObject cyclic [])) 0 = Inr (vers 2)
   \<and> fst (from renderObject 0 (vers 1) [cyclic]) = Success 1
   \<and> fst (to renderObject 1 (vers 2) [cyclic, cyclic]) = Success 2
   \<and> snd (to renderObject 1 (vers 2) (snd (from renderObject 0 (vers 1) (snd (createTransformChain renderObject cyclic [])))))
       = [cyclic, cyclic, [step 1 2 1]]
   \<and> applyChain renderObject TypeErr Bare [cyclic, cyclic, [step 1 2 1]] 2 rec1 0
       = (Inr (Success \<lparr>analysisType = vers 2, payload = 1\<rparr>), 1)
   \<and> applyAll renderObject TypeErr Bare (dropWhile (\<lambda>t. start t \<noteq> vers 1) cyclic) rec1 0
       = (Inr (Success \<lparr>analysisType = vers 2, payload = 111\<rparr>), 3)"
proof -
  have c: "connected cyclic" by (simp add: connected_successively cyclic_def)
  have 1: "createTransformChain renderObject cyclic [] = (Success 0, [cyclic])"
    using createTransformChain_ok [OF c, of renderObject "[]"] by simp
  have 2: "from renderObject 0 (vers 1) [cyclic] = (Success 1, [cyclic, cyclic])"
    using from_ok [of "[cyclic]" 0 "vers 1" renderObject] by (simp add: cyclic_def)
  have 3: "to renderObject 1 (vers 2) [cyclic, cyclic] = (Success 2, [cyclic, cyclic, [step 1 2 1]])"
    using to_ok [of "[cyclic, cyclic]" 1 "vers 2" renderObject] by (simp add: cyclic_def)
  have 4: "getEnd [cyclic] 0 = Inr (vers 2)" by (simp add: getEnd_def cyclic_def)
  have 5: "applyChain renderObject TypeErr Bare [cyclic, cyclic, [step 1 2 1]] 2 rec1 0
       = (Inr (Success \<lparr>analysisType = vers 2, payload = 1\<rparr>), 1)"
    by (simp add: applyChain_def applyAll_def asResult_def success_def applyStep_Success step_apply rec1_def)
  have 6: "applyAll renderObject TypeErr Bare (dropWhile (\<lambda>t. start t \<noteq> vers 1) cyclic) rec1 0
       = (Inr (Success \<lparr>analysisType = vers 2, payload = 111\<rparr>), 3)"
    by (simp add: cyclic_def applyAll_def asResult_def success_def applyStep_Success step_apply rec1_def)
  from 1 2 3 4 5 6 show ?thesis by simp
qed

text \<open>
  C8, as the code has it. A chain returned as a Success by \<^verbatim>\<open>createTransformChain\<close> given
  at least one transform, or by a successful \<^verbatim>\<open>add\<close>, \<^verbatim>\<open>from\<close> or \<^verbatim>\<open>to\<close>, has a non-empty
  array, so \<^verbatim>\<open>getStart()\<close> and \<^verbatim>\<open>getEnd()\<close> return the start of its first and the end of
  its last transform. Each of these calls returns a new chain and leaves the array of
  every chain that existed before, the one it was called on included, as it was.
\<close>

theorem built_chain_nonempty:
  "(\<forall>c' s'. ts \<noteq> [] \<and> createTransformChain render ts s = (Success c', s') \<longrightarrow>
        nonEmptyChain s' c' \<and> newChain s c' s')
   \<and> (\<forall>c' s'. add render c t s = (Success c', s') \<longrightarrow> nonEmptyChain s' c' \<and> newChain s c' s')
   \<and> (\<forall>c' s'. from render c v s = (Success c', s') \<longrightarrow> nonEmptyChain s' c' \<and> newChain s c' s')
   \<and> (\<forall>c' s'. to render c v s = (Success c', s') \<longrightarrow> nonEmptyChain s' c' \<and> newChain s c' s')"
proof (intro conjI allI impI)
  fix c' s'
  assume a: "ts \<noteq> [] \<and> createTransformChain render ts s = (Success c', s')"
  then have "is_success (fst (createTransformChain render ts s))" by simp
  then have "connected ts" by (simp add: createTransformChain_success_iff)
  from createTransformChain_ok [OF this, of render s] a
  have "c' = length s" "s' = s @ [ts]" by simp_all
  with a show "nonEmptyChain s' c'" "newChain s c' s'"
    by (simp_all add: nonEmptyChain_iff newChain_append)
next
  fix c' s'
  assume a: "add render c t s = (Success c', s')"
  have "s ! c = [] \<or> end (last (s ! c)) = start t"
  proof (rule ccontr)
    assume "\<not> ?thesis"
    then have "\<not> is_success (fst (add render c t s))" using add_fail by blast
    with a show False by simp
  qed
  from add_ok [OF this, of render] a have "c' = length s" "s' = s @ [s ! c @ [t]]" by simp_all
  then show "nonEmptyChain s' c'" "newChain s c' s'"
    by (simp_all add: nonEmptyChain_iff newChain_append)
next
  fix c' s'
  assume a: "from render c v s = (Success c', s')"
  have ex: "\<exists>t\<in>set (s ! c). start t = v"
  proof (rule ccontr)
    assume "\<not> ?thesis"
    then have "\<forall>t\<in>set (s ! c). start t \<noteq> v" by blast
    from from_fail [OF this, of render] a show False by simp
  qed
  from from_ok [OF ex, of render] a
  have "c' = length s" "s' = s @ [dropWhile (\<lambda>t. start t \<noteq> v) (s ! c)]" by simp_all
  moreover from ex have "dropWhile (\<lambda>t. start t \<noteq> v) (s ! c) \<noteq> []"
    by (simp add: dropWhile_eq_Nil_conv)
  ultimately show "nonEmptyChain s' c'" "newChain s c' s'"
    by (simp_all add: nonEmptyChain_iff newChain_append)
next
  fix c' s'
  assume a: "to render c v s = (Success c', s')"
  have ex: "\<exists>t\<in>set (s ! c). end t = v"
  proof (rule ccontr)
    assume "\<not> ?thesis"
    then have "\<forall>t\<in>set (s ! c). end t \<noteq> v" by blast
    from to_fail [OF this, of render] a show False by simp
  qed
  from to_ok [OF ex, of render] a
  have "c' = length s"
    "s' = s @ [takeWhile (\<lambda>t. end t \<noteq> v) (s ! c) @ [hd (dropWhile (\<lambda>t. end t \<noteq> v) (s ! c))]]"
    by simp_all
  then show "nonEmptyChain s' c'" "newChain s c' s'"
    by (simp_all add: nonEmptyChain_iff newChain_append)
qed

theorem built_chain_nonempty_witness:
  "linear \<noteq> []
   \<and> createTransformChain renderObject linear [linear] = (Success 1, [linear, linear])
   \<and> nonEmptyChain [linear, linear] 1 \<and> newChain [linear] 1 [linear, linear]
   \<and> add renderObject 0 (step 4 5 7) [linear] = (Success 1, [linear, linear @ [step 4 5 7]])
   \<and> nonEmptyChain [linear, linear @ [step 4 5 7]] 1 \<and> newChain [linear] 1 [linear, linear @ [step 4 5 7]]
   \<and> from renderObject 0 (vers 3) [linear] = (Success 1, [linear, [step 3 4 100]])
   \<and> nonEmptyChain [linear, [step 3 4 100]] 1 \<and> newChain [linear] 1 [linear, [step 3 4 100]]
   \<and> to renderObject 0 (vers 3) [linear] = (Success 1, [linear, [step 1 2 1, step 2 3 10]])
   \<and> nonEmptyChain [linear, [step 1 2 1, step 2 3 10]] 1
   \<and> newChain [linear] 1 [linear, [step 1 2 1, step 2 3 10]]"
proof -
  note t = built_chain_nonempty [of linear renderObject "[linear]" 0 "step 4 5 7" "vers 3"]
  have n: "linear \<noteq> []" by (simp add: linear_def)
  have c: "connected linear" by (simp add: connected_successively linear_def)
  have 1: "createTransformChain renderObject linear [linear] = (Success 1, [linear, linear])"
    using createTransformChain_ok [OF c, of renderObject "[linear]"] by simp
  have 2: "add renderObject 0 (step 4 5 7) [linear] = (Success 1, [linear, linear @ [step 4 5 7]])"
    using add_ok [of "[linear]" 0 "step 4 5 7" renderObject] by (simp add: linear_def)
  have 3: "from renderObject 0 (vers 3) [linear] = (Success 1, [linear, [step 3 4 100]])"
    using from_ok [of "[linear]" 0 "vers 3" renderObject] by (simp add: linear_def)
  have 4: "to renderObject 0 (vers 3) [linear] = (Success 1, [linear, [step 1 2 1, step 2 3 10]])"
    using to_ok [of "[linear]" 0 "vers 3" renderObject] by (simp add: linear_def)
  from t n 1 have 5: "nonEmptyChain [linear, linear] 1 \<and> newChain [linear] 1 [linear, linear]"
    by blast
  from t 2 have 6: "nonEmptyChain [linear, linear @ [step 4 5 7]] 1
      \<and> newChain [linear] 1 [linear, linear @ [step 4 5 7]]"
    by blast
  from t 3 have 7: "nonEmptyChain [linear, [step 3 4 100]] 1 \<and> newChain [linear] 1 [linear, [step 3 4 100]]"
    by blast
  from t 4 have 8: "nonEmptyChain [linear, [step 1 2 1, step 2 3 10]] 1
      \<and> newChain [linear] 1 [linear, [step 1 2 1, step 2 3 10]]"
    by blast
  from n 1 2 3 4 5 6 7 8 show ?thesis by blast
qed

text \<open>
  C8 as stated fails for \<^verbatim>\<open>createTransformChain()\<close> with no transform: it returns a
  Success, the chain's array is empty, and \<^verbatim>\<open>getStart()\<close> and \<^verbatim>\<open>getEnd()\<close> throw.
\<close>

theorem empty_chain_counterexample:
  "createTransformChain renderObject ([] :: (nat, exception, nat) Transform list) [] = (Success 0, [[]])
   \<and> getStart ([[]] :: (nat, exception, nat) store) 0 = Inl TypeError
   \<and> getEnd ([[]] :: (nat, exception, nat) store) 0 = Inl TypeError"
  by (simp add: createTransformChain_def extendTransformChain_def asResult_def success_def
        getStart_def getEnd_def)

section \<open>Properties of the queue and of the runner\<close>

lemma Queue_take_empty:
  "queue Q = [] \<Longrightarrow> Queue_take truthy render Q w = (Failure [''Empty Queue''], Q, w)"
  by (simp add: Queue_take_def failure_def unknownToString_def)

lemma Queue_take_truthy:
  "queue Q = x # rest \<Longrightarrow> truthy x \<Longrightarrow>
     Queue_take truthy render Q w
       = (Success x,
          Q\<lparr>queue := fst (forEachAction (takeActions Q) x (rest, w))\<rparr>,
          snd (forEachAction (takeActions Q) x (rest, w)))"
  by (simp add: Queue_take_def triggerTakeActions_def success_def split: prod.splits)

lemma Queue_take_falsy:
  "queue Q = x # rest \<Longrightarrow> \<not> truthy x \<Longrightarrow>
     Queue_take truthy render Q w = (Failure [''Empty Queue''], Q\<lparr>queue := rest\<rparr>, w)"
  by (simp add: Queue_take_def failure_def unknownToString_def)

text \<open>
  C7, at a failing input. A \<^verbatim>\<open>Queue<number>\<close> holding 0 and 7, with a take listener that
  logs: \<^verbatim>\<open>take()\<close> returns the Failure "Empty Queue" although the queue holds two
  elements, the queue is changed (the 0 is gone), and the listener is not called.
\<close>

theorem Queue_take_falsy_item:
  "queue numberQueue = [0, 7] \<and> Queue_getSize numberQueue = 2
   \<and> Queue_take truthyNumber renderObject numberQueue []
       = (Failure [''Empty Queue''], numberQueue\<lparr>queue := [7]\<rparr>, [])"
proof -
  have q: "queue numberQueue = [0, 7]"
    by (simp add: numberQueue_def Queue_add_def triggerAddActions_def forEachAction_def
          Queue_onTake_def Queue_def)
  have f: "\<not> truthyNumber 0" by (simp add: truthyNumber_def)
  from Queue_take_falsy [of numberQueue 0 "[7]" truthyNumber renderObject "[]"] q f show ?thesis
    by (simp add: Queue_getSize_def)
qed

lemma setActive_sel [simp]:
  "activeProcesses (setActive n v) = n" "history (setActive n v) = history v @ [n]"
  "startActions (setActive n v) = startActions v" "finishActions (setActive n v) = finishActions v"
  "errorActions (setActive n v) = errorActions v" "invoked (setActive n v) = invoked v"
  "awaiting (setActive n v) = awaiting v" "told (setActive n v) = told v"
  "observer (setActive n v) = observer v"
  by (simp_all add: setActive_def)

lemma tell_sel [simp]:
  "activeProcesses (tell actions event v) = activeProcesses v"
  "history (tell actions event v) = history v"
  "startActions (tell actions event v) = startActions v"
  "finishActions (tell actions event v) = finishActions v"
  "errorActions (tell actions event v) = errorActions v"
  "invoked (tell actions event v) = invoked v" "awaiting (tell actions event v) = awaiting v"
  "told (tell actions event v) = told v @ map (\<lambda>action. event) actions"
  by (simp_all add: tell_def)

lemma withinLimit_active: "withinLimit m v \<Longrightarrow> 0 \<le> activeProcesses v \<and> activeProcesses v \<le> m"
  using last_in_set [of "history v"] by (auto simp: withinLimit_def)

lemma setActive_limit:
  "0 \<le> n \<Longrightarrow> n \<le> m \<Longrightarrow> withinLimit m v \<Longrightarrow> withinLimit m (setActive n v)"
  by (simp add: withinLimit_def)

lemma tell_limit:
  "withinLimit m v \<Longrightarrow> running event = activeProcesses v \<Longrightarrow> withinLimit m (tell actions event v)"
  using withinLimit_active [of m v] by (auto simp: withinLimit_def)

lemma Queue_take_private:
  "takeActions Q = [] \<Longrightarrow>
     Queue_take (\<lambda>f. True) render Q v
       = (case queue Q of
            [] \<Rightarrow> (Failure [''Empty Queue''], Q, v)
          | f # rest \<Rightarrow> (Success f, Q\<lparr>queue := rest\<rparr>, v))"
  by (simp add: Queue_take_def triggerTakeActions_def forEachAction_def success_def failure_def
        unknownToString_def split: list.splits)

lemma attemptStart_core:
  assumes "takeActions Q = []" and "attemptStart render m Q v = (Q', v')"
  shows "coreOf Q' v' = admit m (coreOf Q v)"
    and "addActions Q' = addActions Q" and "takeActions Q' = takeActions Q"
    and "errorActions v' = errorActions v"
    and "withinLimit m v \<Longrightarrow> withinLimit m v'"
proof -
  show "coreOf Q' v' = admit m (coreOf Q v)"
    and "addActions Q' = addActions Q" and "takeActions Q' = takeActions Q"
    and "errorActions v' = errorActions v"
    using assms
    by (auto simp: attemptStart_def Queue_take_private coreOf_def admit_def Let_def
        split: if_splits list.splits)
  assume l: "withinLimit m v"
  note k = withinLimit_active [OF l]
  show "withinLimit m v'"
  proof (cases "activeProcesses v < m \<and> queue Q \<noteq> []")
    case True
    then obtain f rest where q: "queue Q = f # rest" by (cases "queue Q") auto
    let ?v1 = "setActive (activeProcesses v + 1) v"
    let ?v2 = "tell (startActions ?v1) \<lparr>running = activeProcesses ?v1, queued = Queue_getSize (Q\<lparr>queue := rest\<rparr>)\<rparr> ?v1"
    from True k have l1: "withinLimit m ?v1" using l by (simp add: setActive_limit)
    then have l2: "withinLimit m ?v2" by (simp add: tell_limit)
    from assms True q have "v' = ?v2\<lparr>invoked := invoked ?v2 @ [(f, activeProcesses ?v2)],
                                     awaiting := awaiting ?v2 @ [f]\<rparr>"
      by (auto simp: attemptStart_def Queue_take_private Let_def)
    with l2 True k show ?thesis by (simp add: withinLimit_def)
  next
    case False
    with assms have "v' = v"
      by (auto simp: attemptStart_def Queue_take_private split: if_splits list.splits)
    with l show ?thesis by simp
  qed
qed

lemma onAddAction_pair:
  "onAddAction a ev (q, v) = (q, tell [a] \<lparr>running = activeProcesses v, queued = length' ev\<rparr> v)"
  by (simp add: onAddAction_def)

lemma forEach_onAddAction:
  "forEachAction (map onAddAction acts) fn (q, v) = (q', v') \<Longrightarrow>
     q' = q \<and> activeProcesses v' = activeProcesses v \<and> invoked v' = invoked v
     \<and> awaiting v' = awaiting v \<and> errorActions v' = errorActions v
     \<and> (withinLimit m v \<longrightarrow> withinLimit m v')"
proof (induction acts arbitrary: v)
  case Nil
  then show ?case by (simp add: forEachAction_def)
next
  case (Cons a acts)
  let ?v = "tell [a] \<lparr>running = activeProcesses v, queued = length q\<rparr> v"
  from Cons.prems have "forEachAction (map onAddAction acts) fn (q, ?v) = (q', v')"
    by (simp add: forEachAction_def onAddAction_pair)
  from Cons.IH [OF this] show ?case by (simp add: tell_limit)
qed

lemma PromiseQueue_add_core:
  assumes w: "wellFormed render pq"
  shows "core (PromiseQueue_add pq fn) = admit (maxConcurrency pq) ((core pq)\<lparr>cQueue := cQueue (core pq) @ [fn]\<rparr>)"
    and "wellFormed render (PromiseQueue_add pq fn)"
    and "maxConcurrency (PromiseQueue_add pq fn) = maxConcurrency pq"
    and "errorActions (vars (PromiseQueue_add pq fn)) = errorActions (vars pq)"
    and "withinLimit (maxConcurrency pq) (vars pq) \<Longrightarrow>
           withinLimit (maxConcurrency pq) (vars (PromiseQueue_add pq fn))"
proof -
  let ?m = "maxConcurrency pq"
  from w obtain acts where t: "takeActions (queue' pq) = []"
    and a: "addActions (queue' pq) = attemptStartAction render ?m # map onAddAction acts"
    by (auto simp: wellFormed_def)
  let ?Q0 = "\<lparr>queue = queue (queue' pq) @ [fn], addActions = [], takeActions = []\<rparr>
               :: ('b, ('b, 'c, 'd) PromiseQueueVars) Queue"
  obtain Q1 v1 where s: "attemptStart render ?m ?Q0 (vars pq) = (Q1, v1)"
    by (cases "attemptStart render ?m ?Q0 (vars pq)")
  have c1: "coreOf Q1 v1 = admit ?m (coreOf ?Q0 (vars pq))" and e1: "errorActions v1 = errorActions (vars pq)"
    and l1: "withinLimit ?m (vars pq) \<Longrightarrow> withinLimit ?m v1"
    using attemptStart_core [OF _ s] by simp_all
  obtain q2 v2 where f: "forEachAction (map onAddAction acts) fn (queue Q1, v1) = (q2, v2)"
    by (cases "forEachAction (map onAddAction acts) fn (queue Q1, v1)")
  note k = forEach_onAddAction [OF f, of ?m]
  have r: "PromiseQueue_add pq fn = pq\<lparr>queue' := (queue' pq)\<lparr>queue := q2\<rparr>, vars := v2\<rparr>"
    using s f a
    by (simp add: PromiseQueue_add_def Queue_add_def triggerAddActions_def forEachAction_def
          attemptStartAction_def)
  have "coreOf ((queue' pq)\<lparr>queue := q2\<rparr>) v2 = coreOf Q1 v1"
    using k by (simp add: coreOf_def)
  also have "\<dots> = admit ?m ((core pq)\<lparr>cQueue := cQueue (core pq) @ [fn]\<rparr>)"
    using c1 by (simp add: coreOf_def core_def)
  finally show "core (PromiseQueue_add pq fn) = admit ?m ((core pq)\<lparr>cQueue := cQueue (core pq) @ [fn]\<rparr>)"
    by (simp add: r core_def)
  show "wellFormed render (PromiseQueue_add pq fn)"
    using t a by (auto simp: r wellFormed_def)
  show "maxConcurrency (PromiseQueue_add pq fn) = maxConcurrency pq" by (simp add: r)
  show "errorActions (vars (PromiseQueue_add pq fn)) = errorActions (vars pq)"
    using k e1 by (simp add: r)
  show "withinLimit ?m (vars (PromiseQueue_add pq fn))" if "withinLimit ?m (vars pq)"
    using k l1 [OF that] by (simp add: r)
qed

lemma settle_limit:
  assumes b: "bounded m (coreOf Q v)" and i: "f \<in> set (awaiting v)" and l: "withinLimit m v"
  shows "withinLimit m (setActive (activeProcesses (v\<lparr>awaiting := remove1 f (awaiting v)\<rparr>) - 1)
           (v\<lparr>awaiting := remove1 f (awaiting v)\<rparr>))"
proof -
  from i have "1 \<le> length (awaiting v)" by (cases "awaiting v") auto
  with b have "1 \<le> activeProcesses v" "activeProcesses v \<le> m"
    by (simp_all add: bounded_def coreOf_def)
  moreover from l have "withinLimit m (v\<lparr>awaiting := remove1 f (awaiting v)\<rparr>)"
    by (simp add: withinLimit_def)
  ultimately show ?thesis by (simp add: setActive_limit)
qed

lemma afterResolve_core:
  assumes w: "wellFormed render pq"
  shows "core (afterResolve render pq f)
      = admit (maxConcurrency pq)
          ((core pq)\<lparr>cAwaiting := remove1 f (cAwaiting (core pq)), cActive := cActive (core pq) - 1\<rparr>)"
    and "wellFormed render (afterResolve render pq f)"
    and "maxConcurrency (afterResolve render pq f) = maxConcurrency pq"
    and "errorActions (vars (afterResolve render pq f)) = errorActions (vars pq)"
    and "bounded (maxConcurrency pq) (core pq) \<Longrightarrow> f \<in> set (awaiting (vars pq)) \<Longrightarrow>
         withinLimit (maxConcurrency pq) (vars pq) \<Longrightarrow>
           withinLimit (maxConcurrency pq) (vars (afterResolve render pq f))"
proof -
  let ?m = "maxConcurrency pq"
  from w have t: "takeActions (queue' pq) = []" by (simp add: wellFormed_def)
  let ?v = "(vars pq)\<lparr>awaiting := remove1 f (awaiting (vars pq))\<rparr>"
  let ?v1 = "setActive (activeProcesses ?v - 1) ?v"
  let ?v2 = "tell (finishActions ?v1)
               \<lparr>running = activeProcesses ?v1, queued = Queue_getSize (queue' pq)\<rparr> ?v1"
  obtain Q' v' where s: "attemptStart render ?m (queue' pq) ?v2 = (Q', v')"
    by (cases "attemptStart render ?m (queue' pq) ?v2")
  note k = attemptStart_core [OF t s]
  have r: "afterResolve render pq f = pq\<lparr>queue' := Q', vars := v'\<rparr>"
    using s by (simp add: afterResolve_def Let_def)
  show "core (afterResolve render pq f)
      = admit ?m ((core pq)\<lparr>cAwaiting := remove1 f (cAwaiting (core pq)), cActive := cActive (core pq) - 1\<rparr>)"
    using k(1) by (simp add: r core_def coreOf_def)
  show "wellFormed render (afterResolve render pq f)"
    using w k(2,3) by (simp add: r wellFormed_def)
  show "maxConcurrency (afterResolve render pq f) = maxConcurrency pq" by (simp add: r)
  show "errorActions (vars (afterResolve render pq f)) = errorActions (vars pq)"
    using k(4) by (simp add: r)
  show "withinLimit ?m (vars (afterResolve render pq f))"
    if b: "bounded ?m (core pq)" and i: "f \<in> set (awaiting (vars pq))" and l: "withinLimit ?m (vars pq)"
  proof -
    from settle_limit [OF _ i l, of "queue' pq"] b have "withinLimit ?m ?v1" by (simp add: core_def)
    then have "withinLimit ?m ?v2" by (simp add: tell_limit)
    from k(5) [OF this] show ?thesis by (simp add: r)
  qed
qed

lemma afterReject_core:
  assumes w: "wellFormed render pq"
  shows "core (snd (afterReject render pq f err))
      = (if errorActions (vars pq) \<noteq> [] then admit (maxConcurrency pq) else id)
          ((core pq)\<lparr>cAwaiting := remove1 f (cAwaiting (core pq)), cActive := cActive (core pq) - 1\<rparr>)"
    and "wellFormed render (snd (afterReject render pq f err))"
    and "maxConcurrency (snd (afterReject render pq f err)) = maxConcurrency pq"
    and "errorActions (vars (snd (afterReject render pq f err))) = errorActions (vars pq)"
    and "bounded (maxConcurrency pq) (core pq) \<Longrightarrow> f \<in> set (awaiting (vars pq)) \<Longrightarrow>
         withinLimit (maxConcurrency pq) (vars pq) \<Longrightarrow>
           withinLimit (maxConcurrency pq) (vars (snd (afterReject render pq f err)))"
proof -
  let ?m = "maxConcurrency pq"
  from w have t: "takeActions (queue' pq) = []" by (simp add: wellFormed_def)
  let ?v = "(vars pq)\<lparr>awaiting := remove1 f (awaiting (vars pq))\<rparr>"
  let ?v1 = "setActive (activeProcesses ?v - 1) ?v"
  let ?v2 = "tell (map (\<lambda>action event. action event err) (errorActions ?v1))
               \<lparr>running = activeProcesses ?v1, queued = Queue_getSize (queue' pq)\<rparr> ?v1"
  obtain Q' v' where s: "attemptStart render ?m (queue' pq) ?v2 = (Q', v')"
    by (cases "attemptStart render ?m (queue' pq) ?v2")
  note k = attemptStart_core [OF t s]
  have r: "snd (afterReject render pq f err)
      = (if errorActions (vars pq) \<noteq> [] then pq\<lparr>queue' := Q', vars := v'\<rparr> else pq\<lparr>vars := ?v1\<rparr>)"
    using s by (simp add: afterReject_def Let_def)
  show "core (snd (afterReject render pq f err))
      = (if errorActions (vars pq) \<noteq> [] then admit ?m else id)
          ((core pq)\<lparr>cAwaiting := remove1 f (cAwaiting (core pq)), cActive := cActive (core pq) - 1\<rparr>)"
    using k(1) by (simp add: r core_def coreOf_def)
  show "wellFormed render (snd (afterReject render pq f err))"
    using w k(2,3) by (simp add: r wellFormed_def)
  show "maxConcurrency (snd (afterReject render pq f err)) = maxConcurrency pq" by (simp add: r)
  show "errorActions (vars (snd (afterReject render pq f err))) = errorActions (vars pq)"
    using k(4) by (simp add: r)
  show "withinLimit ?m (vars (snd (afterReject render pq f err)))"
    if b: "bounded ?m (core pq)" and i: "f \<in> set (awaiting (vars pq))" and l: "withinLimit ?m (vars pq)"
  proof -
    from settle_limit [OF _ i l, of "queue' pq"] b have l1: "withinLimit ?m ?v1" by (simp add: core_def)
    then have "withinLimit ?m ?v2" by (simp add: tell_limit)
    from k(5) [OF this] l1 show ?thesis by (simp add: r)
  qed
qed

lemma admit_order: "cInvoked (admit m c) @ cQueue (admit m c) = cInvoked c @ cQueue c"
  by (simp add: admit_def split: list.splits)

lemma bounded_add:
  "bounded m c \<Longrightarrow> bounded m (admit m (c\<lparr>cQueue := cQueue c @ [fn]\<rparr>))"
  by (auto simp: bounded_def admit_def split: list.splits)

lemma saturated_add:
  "saturated m c \<Longrightarrow> saturated m (admit m (c\<lparr>cQueue := cQueue c @ [fn]\<rparr>))"
  by (auto simp: saturated_def admit_def split: list.splits)

lemma length_remove1_int:
  assumes "f \<in> set xs"
  shows "int (length (remove1 f xs)) = int (length xs) - 1"
proof -
  from assms have "1 \<le> length xs" by (cases xs) auto
  then have "int (length xs - Suc 0) = int (length xs) - 1" by arith
  with assms show ?thesis by (simp add: length_remove1)
qed

lemma bounded_settle:
  "bounded m c \<Longrightarrow> f \<in> set (cAwaiting c) \<Longrightarrow>
     bounded m (c\<lparr>cAwaiting := remove1 f (cAwaiting c), cActive := cActive c - 1\<rparr>)"
  by (simp add: bounded_def length_remove1_int)

lemma bounded_admit: "bounded m c \<Longrightarrow> bounded m (admit m c)"
  by (auto simp: bounded_def admit_def split: list.splits)

lemma saturated_resolve:
  "bounded m c \<Longrightarrow> saturated m c \<Longrightarrow>
     saturated m (admit m (c\<lparr>cAwaiting := remove1 f (cAwaiting c), cActive := cActive c - 1\<rparr>))"
  by (auto simp: bounded_def saturated_def admit_def split: list.splits)

lemma PromiseQueue_initial:
  "wellFormed render (PromiseQueue render m ob)"
  "maxConcurrency (PromiseQueue render m ob) = m"
  "core (PromiseQueue render m ob) = \<lparr>cActive = 0, cQueue = [], cInvoked = [], cAwaiting = []\<rparr>"
  "0 \<le> m \<Longrightarrow> withinLimit m (vars (PromiseQueue render m ob))"
  by (simp_all add: PromiseQueue_def wellFormed_def Queue_onAdd_def Queue_def core_def coreOf_def
        withinLimit_def)

lemma registration_core:
  assumes "wellFormed render pq"
  shows "wellFormed render (onAdd pq a) \<and> core (onAdd pq a) = core pq
           \<and> maxConcurrency (onAdd pq a) = maxConcurrency pq
           \<and> withinLimit m (vars (onAdd pq a)) = withinLimit m (vars pq)"
    and "wellFormed render (onStart pq a) \<and> core (onStart pq a) = core pq
           \<and> maxConcurrency (onStart pq a) = maxConcurrency pq
           \<and> withinLimit m (vars (onStart pq a)) = withinLimit m (vars pq)"
    and "wellFormed render (onFinish pq a) \<and> core (onFinish pq a) = core pq
           \<and> maxConcurrency (onFinish pq a) = maxConcurrency pq
           \<and> withinLimit m (vars (onFinish pq a)) = withinLimit m (vars pq)"
    and "wellFormed render (onError pq b) \<and> core (onError pq b) = core pq
           \<and> maxConcurrency (onError pq b) = maxConcurrency pq
           \<and> withinLimit m (vars (onError pq b)) = withinLimit m (vars pq)"
proof -
  from assms obtain acts where t: "takeActions (queue' pq) = []"
    and a: "addActions (queue' pq) = attemptStartAction render (maxConcurrency pq) # map onAddAction acts"
    by (auto simp: wellFormed_def)
  have "addActions (queue' pq) @ [onAddAction a]
      = attemptStartAction render (maxConcurrency pq) # map onAddAction (acts @ [a])"
    using a by simp
  then show "wellFormed render (onAdd pq a) \<and> core (onAdd pq a) = core pq
           \<and> maxConcurrency (onAdd pq a) = maxConcurrency pq
           \<and> withinLimit m (vars (onAdd pq a)) = withinLimit m (vars pq)"
    using t unfolding wellFormed_def onAdd_def Queue_onAdd_def core_def coreOf_def
    by (simp del: map_append) blast
  show "wellFormed render (onStart pq a) \<and> core (onStart pq a) = core pq
           \<and> maxConcurrency (onStart pq a) = maxConcurrency pq
           \<and> withinLimit m (vars (onStart pq a)) = withinLimit m (vars pq)"
    using assms by (simp add: wellFormed_def onStart_def core_def coreOf_def withinLimit_def)
  show "wellFormed render (onFinish pq a) \<and> core (onFinish pq a) = core pq
           \<and> maxConcurrency (onFinish pq a) = maxConcurrency pq
           \<and> withinLimit m (vars (onFinish pq a)) = withinLimit m (vars pq)"
    using assms by (simp add: wellFormed_def onFinish_def core_def coreOf_def withinLimit_def)
  show "wellFormed render (onError pq b) \<and> core (onError pq b) = core pq
           \<and> maxConcurrency (onError pq b) = maxConcurrency pq
           \<and> withinLimit m (vars (onError pq b)) = withinLimit m (vars pq)"
    using assms by (simp add: wellFormed_def onError_def core_def coreOf_def withinLimit_def)
qed

lemma step_invariant:
  assumes w: "wellFormed render pq" and b: "bounded (maxConcurrency pq) (core pq)"
    and l: "withinLimit (maxConcurrency pq) (vars pq)"
    and s: "perform render pq ev = Some pq'"
  shows "wellFormed render pq'" and "maxConcurrency pq' = maxConcurrency pq"
    and "bounded (maxConcurrency pq) (core pq')"
    and "withinLimit (maxConcurrency pq) (vars pq')"
    and "cInvoked (core pq') @ cQueue (core pq') = cInvoked (core pq) @ cQueue (core pq) @ submitted [ev]"
    and "\<not> isRejected ev \<Longrightarrow> saturated (maxConcurrency pq) (core pq) \<Longrightarrow>
           saturated (maxConcurrency pq) (core pq')"
proof -
  let ?m = "maxConcurrency pq"
  have "wellFormed render pq' \<and> maxConcurrency pq' = ?m \<and> bounded ?m (core pq')
      \<and> withinLimit ?m (vars pq')
      \<and> cInvoked (core pq') @ cQueue (core pq') = cInvoked (core pq) @ cQueue (core pq) @ submitted [ev]
      \<and> (\<not> isRejected ev \<longrightarrow> saturated ?m (core pq) \<longrightarrow> saturated ?m (core pq'))"
  proof (cases ev)
    case (Add fn)
    with s have p: "pq' = PromiseQueue_add pq fn" by (simp add: perform_def)
    note k = PromiseQueue_add_core [OF w, of fn]
    show ?thesis
      using b l by (simp add: p k Add admit_order bounded_add saturated_add)
  next
    case (Resolved f)
    with s have p: "pq' = afterResolve render pq f" and i: "f \<in> set (cAwaiting (core pq))"
      by (simp_all add: perform_def core_def coreOf_def split: if_splits)
    from i have i': "f \<in> set (awaiting (vars pq))" by (simp add: core_def coreOf_def)
    note k = afterResolve_core [OF w, of f]
    show ?thesis
      using b i k(5) [OF b i' l]
      by (simp add: p k(1-4) Resolved admit_order bounded_admit bounded_settle saturated_resolve)
  next
    case (Rejected f err)
    with s have p: "pq' = snd (afterReject render pq f err)" and i: "f \<in> set (cAwaiting (core pq))"
      by (simp_all add: perform_def core_def coreOf_def split: if_splits)
    from i have i': "f \<in> set (awaiting (vars pq))" by (simp add: core_def coreOf_def)
    note k = afterReject_core [OF w, of f err]
    show ?thesis
      using b i k(5) [OF b i' l]
      by (simp add: p k(1-4) Rejected admit_order bounded_admit bounded_settle)
  next
    case (OnAdd a)
    with s have p: "pq' = onAdd pq a" by (simp add: perform_def)
    show ?thesis using b l registration_core(1) [OF w, of a ?m] by (simp add: p OnAdd)
  next
    case (OnStart a)
    with s have p: "pq' = onStart pq a" by (simp add: perform_def)
    show ?thesis using b l registration_core(2) [OF w, of a ?m] by (simp add: p OnStart)
  next
    case (OnFinish a)
    with s have p: "pq' = onFinish pq a" by (simp add: perform_def)
    show ?thesis using b l registration_core(3) [OF w, of a ?m] by (simp add: p OnFinish)
  next
    case (OnError a)
    with s have p: "pq' = onError pq a" by (simp add: perform_def)
    show ?thesis using b l registration_core(4) [OF w, of a ?m] by (simp add: p OnError)
  qed
  then show "wellFormed render pq'" and "maxConcurrency pq' = maxConcurrency pq"
    and "bounded (maxConcurrency pq) (core pq')"
    and "withinLimit (maxConcurrency pq) (vars pq')"
    and "cInvoked (core pq') @ cQueue (core pq') = cInvoked (core pq) @ cQueue (core pq) @ submitted [ev]"
    and "\<not> isRejected ev \<Longrightarrow> saturated (maxConcurrency pq) (core pq) \<Longrightarrow>
           saturated (maxConcurrency pq) (core pq')"
    by blast+
qed

lemma submitted_Cons: "submitted (ev # evs) = submitted [ev] @ submitted evs"
  by (cases ev) simp_all

lemma runEvents_invariant:
  "wellFormed render pq \<Longrightarrow> bounded (maxConcurrency pq) (core pq) \<Longrightarrow>
   withinLimit (maxConcurrency pq) (vars pq) \<Longrightarrow>
   runEvents render pq evs = Some pq' \<Longrightarrow>
     wellFormed render pq' \<and> maxConcurrency pq' = maxConcurrency pq
     \<and> bounded (maxConcurrency pq) (core pq')
     \<and> withinLimit (maxConcurrency pq) (vars pq')
     \<and> cInvoked (core pq') @ cQueue (core pq') = cInvoked (core pq) @ cQueue (core pq) @ submitted evs
     \<and> ((\<forall>ev\<in>set evs. \<not> isRejected ev) \<longrightarrow> saturated (maxConcurrency pq) (core pq) \<longrightarrow>
          saturated (maxConcurrency pq) (core pq'))"
proof (induction evs arbitrary: pq)
  case Nil
  then show ?case by simp
next
  case (Cons ev evs)
  from Cons.prems(4) obtain p where s: "perform render pq ev = Some p" and r: "runEvents render p evs = Some pq'"
    by (auto split: option.splits)
  note k = step_invariant [OF Cons.prems(1,2,3) s]
  from k(3) have b: "bounded (maxConcurrency p) (core p)" by (simp add: k(2))
  from k(4) have l: "withinLimit (maxConcurrency p) (vars p)" by (simp add: k(2))
  from Cons.IH [OF k(1) b l r] k show ?case
    by (auto simp: submitted_Cons [of ev evs])
qed

lemma drainFor_done:
  "wellFormed render pq \<Longrightarrow> bounded (maxConcurrency pq) (core pq) \<Longrightarrow>
   withinLimit (maxConcurrency pq) (vars pq) \<Longrightarrow>
   saturated (maxConcurrency pq) (core pq) \<Longrightarrow> 1 \<le> maxConcurrency pq \<Longrightarrow>
   length (cQueue (core pq)) + length (cAwaiting (core pq)) \<le> n \<Longrightarrow>
     cQueue (core (drainFor render n pq)) = [] \<and> cAwaiting (core (drainFor render n pq)) = []
     \<and> cActive (core (drainFor render n pq)) = 0
     \<and> cInvoked (core (drainFor render n pq)) = cInvoked (core pq) @ cQueue (core pq)
     \<and> withinLimit (maxConcurrency pq) (vars (drainFor render n pq))"
proof (induction n arbitrary: pq)
  case 0
  then show ?case by (simp add: bounded_def)
next
  case (Suc n)
  let ?m = "maxConcurrency pq"
  show ?case
  proof (cases "awaiting (vars pq)")
    case Nil
    then have "cAwaiting (core pq) = []" by (simp add: core_def coreOf_def)
    with Suc.prems(2,4,5) have "cQueue (core pq) = []" "cActive (core pq) = 0"
      by (auto simp: bounded_def saturated_def)
    with Nil \<open>cAwaiting (core pq) = []\<close> Suc.prems(3) show ?thesis by simp
  next
    case (Cons f fs)
    then have i: "f \<in> set (cAwaiting (core pq))" and a: "cAwaiting (core pq) = f # fs"
      and i': "f \<in> set (awaiting (vars pq))"
      by (simp_all add: core_def coreOf_def)
    let ?p = "afterResolve render pq f"
    let ?c = "(core pq)\<lparr>cAwaiting := remove1 f (cAwaiting (core pq)), cActive := cActive (core pq) - 1\<rparr>"
    note k = afterResolve_core [OF Suc.prems(1), of f]
    have b: "bounded (maxConcurrency ?p) (core ?p)"
      using Suc.prems(2) i by (simp add: k(1-4) bounded_admit bounded_settle)
    have l: "withinLimit (maxConcurrency ?p) (vars ?p)"
      using k(5) [OF Suc.prems(2) i' Suc.prems(3)] by (simp add: k(3))
    have s: "saturated (maxConcurrency ?p) (core ?p)"
      using Suc.prems(2,4) by (simp add: k(1-4) saturated_resolve)
    have "length (cQueue (admit ?m ?c)) + length (cAwaiting (admit ?m ?c)) \<le> n"
      using Suc.prems(6) a by (auto simp: admit_def split: list.splits)
    then have len: "length (cQueue (core ?p)) + length (cAwaiting (core ?p)) \<le> n"
      by (simp add: k(1-4))
    have m: "1 \<le> maxConcurrency ?p" using Suc.prems(5) by (simp add: k(3))
    from Suc.IH [OF k(2) b l s m len] Cons show ?thesis
      by (simp add: k(1-4) admit_order)
  qed
qed

lemma scenario_run:
  "map_option (\<lambda>pq. (getRunning pq, getSize pq, invoked (vars pq), awaiting (vars pq),
                      history (vars pq), map running (told (vars pq)), observer (vars pq)))
     (runEvents renderObject runner2 (watchedItems @ [Resolved 1]))
   = Some (2, 2, [(1, 1), (2, 2), (3, 2)], [2, 3], [0, 1, 2, 1, 2],
           [1, 1, 2, 2, 2, 2, 2, 1, 2], [1, 1, 2, 2, 2, 2, 2, 1, 2])"
  by code_simp

lemma runEvents_append:
  "runEvents render pq (evs @ evs')
     = (case runEvents render pq evs of None \<Rightarrow> None | Some pq' \<Rightarrow> runEvents render pq' evs')"
  by (induction evs arbitrary: pq) (simp_all split: option.splits)

text \<open>
  The scenario, state by state: \<^verbatim>\<open>getRunning()\<close> after each of the five additions and
  of the five resolutions.
\<close>

lemma scenario_states:
  "map (\<lambda>n. map_option getRunning (runEvents renderObject runner2
          (take n (fiveItems @ [Resolved 1, Resolved 2, Resolved 3, Resolved 4, Resolved 5]))))
     [0, 1, 2, 3, 4, 5, 6, 7, 8, 9, 10]
   = map Some [0, 1, 2, 2, 2, 2, 2, 2, 2, 1, 0]"
  by code_simp

text \<open>
  C4. A runner made by \<^verbatim>\<open>PromiseQueue(m)\<close> with \<open>0 \<le> m\<close>, after any sequence of method
  calls and settled promises: \<^verbatim>\<open>getRunning()\<close> is between 0 and \<open>m\<close> and counts the work
  functions started and not settled. The same holds inside each of these calls: every
  value that the counter has held up to now is between 0 and \<open>m\<close>, every listener that
  was called was told a running count between 0 and \<open>m\<close>, and every work function was
  called with the counter between 1 and \<open>m\<close>. The work functions started so far followed
  by the ones in the queue are the ones added, in the order they were added, so work
  starts in submission order and the queue holds what was added and not started. When
  \<open>1 \<le> m\<close> and no promise has rejected, letting the started work resolve, oldest first, as
  many times as there are items queued or running leaves nothing queued and nothing
  running, every item added has been started, and the counter has stayed between 0 and
  \<open>m\<close> all the way. With \<open>m = 2\<close> and five items this is the scenario of the claim.
\<close>

theorem promiseQueue_limit:
  "0 \<le> m \<and> runEvents render (PromiseQueue render m ob) events = Some (pq :: ('f, 'x, 'o) PromiseQueue) \<longrightarrow>
     0 \<le> getRunning pq \<and> getRunning pq \<le> m
     \<and> getRunning pq = int (length (awaiting (vars pq)))
     \<and> last (history (vars pq)) = getRunning pq
     \<and> (\<forall>n\<in>set (history (vars pq)). 0 \<le> n \<and> n \<le> m)
     \<and> (\<forall>event\<in>set (told (vars pq)). 0 \<le> running event \<and> running event \<le> m)
     \<and> (\<forall>call\<in>set (invoked (vars pq)). 1 \<le> snd call \<and> snd call \<le> m)
     \<and> map fst (invoked (vars pq)) @ queue (queue' pq) = submitted events
     \<and> (1 \<le> m \<and> (\<forall>ev\<in>set events. \<not> isRejected ev) \<longrightarrow>
          getSize (drainFor render (getSize pq + length (awaiting (vars pq))) pq) = 0
          \<and> getRunning (drainFor render (getSize pq + length (awaiting (vars pq))) pq) = 0
          \<and> map fst (invoked (vars (drainFor render (getSize pq + length (awaiting (vars pq))) pq)))
              = submitted events
          \<and> (\<forall>n\<in>set (history (vars (drainFor render (getSize pq + length (awaiting (vars pq))) pq))).
                0 \<le> n \<and> n \<le> m))"
proof (intro impI)
  assume a: "0 \<le> m \<and> runEvents render (PromiseQueue render m ob) events = Some pq"
  let ?p0 = "PromiseQueue render m ob :: ('f, 'x, 'o) PromiseQueue"
  note i = PromiseQueue_initial [where render = render and m = m and ob = ob]
  have b0: "bounded (maxConcurrency ?p0) (core ?p0)"
    using a by (simp add: i bounded_def)
  have l0: "withinLimit (maxConcurrency ?p0) (vars ?p0)"
    using a by (simp add: i)
  have s0: "saturated (maxConcurrency ?p0) (core ?p0)"
    by (simp add: i saturated_def)
  from runEvents_invariant [OF i(1) b0 l0, of events pq] a
  have w: "wellFormed render pq" and m: "maxConcurrency pq = m" and b: "bounded m (core pq)"
    and l: "withinLimit m (vars pq)"
    and o: "cInvoked (core pq) @ cQueue (core pq) = submitted events"
    and s: "(\<forall>ev\<in>set events. \<not> isRejected ev) \<longrightarrow> saturated m (core pq)"
    using s0 by (simp_all add: i)
  have 1: "0 \<le> getRunning pq \<and> getRunning pq \<le> m
     \<and> getRunning pq = int (length (awaiting (vars pq)))"
    using b by (simp add: bounded_def getRunning_def core_def coreOf_def)
  have 2: "map fst (invoked (vars pq)) @ queue (queue' pq) = submitted events"
    using o by (simp add: core_def coreOf_def)
  have 4: "last (history (vars pq)) = getRunning pq
     \<and> (\<forall>n\<in>set (history (vars pq)). 0 \<le> n \<and> n \<le> m)
     \<and> (\<forall>event\<in>set (told (vars pq)). 0 \<le> running event \<and> running event \<le> m)
     \<and> (\<forall>call\<in>set (invoked (vars pq)). 1 \<le> snd call \<and> snd call \<le> m)"
    using l by (simp add: withinLimit_def getRunning_def)
  let ?n = "getSize pq + length (awaiting (vars pq))"
  have 3: "1 \<le> m \<and> (\<forall>ev\<in>set events. \<not> isRejected ev) \<longrightarrow>
          getSize (drainFor render ?n pq) = 0 \<and> getRunning (drainFor render ?n pq) = 0
          \<and> map fst (invoked (vars (drainFor render ?n pq))) = submitted events
          \<and> (\<forall>n\<in>set (history (vars (drainFor render ?n pq))). 0 \<le> n \<and> n \<le> m)"
  proof
    assume c: "1 \<le> m \<and> (\<forall>ev\<in>set events. \<not> isRejected ev)"
    with s have s': "saturated (maxConcurrency pq) (core pq)" by (simp add: m)
    have len: "length (cQueue (core pq)) + length (cAwaiting (core pq)) \<le> ?n"
      by (simp add: getSize_def Queue_getSize_def core_def coreOf_def)
    from c have m1: "1 \<le> maxConcurrency pq" by (simp add: m)
    from b have b': "bounded (maxConcurrency pq) (core pq)" by (simp add: m)
    from l have l': "withinLimit (maxConcurrency pq) (vars pq)" by (simp add: m)
    from drainFor_done [OF w b' l' s' m1 len] o
    show "getSize (drainFor render ?n pq) = 0 \<and> getRunning (drainFor render ?n pq) = 0
          \<and> map fst (invoked (vars (drainFor render ?n pq))) = submitted events
          \<and> (\<forall>n\<in>set (history (vars (drainFor render ?n pq))). 0 \<le> n \<and> n \<le> m)"
      by (simp add: getSize_def Queue_getSize_def getRunning_def core_def coreOf_def m withinLimit_def)
  qed
  from 1 2 3 4 show "0 \<le> getRunning pq \<and> getRunning pq \<le> m
     \<and> getRunning pq = int (length (awaiting (vars pq)))
     \<and> last (history (vars pq)) = getRunning pq
     \<and> (\<forall>n\<in>set (history (vars pq)). 0 \<le> n \<and> n \<le> m)
     \<and> (\<forall>event\<in>set (told (vars pq)). 0 \<le> running event \<and> running event \<le> m)
     \<and> (\<forall>call\<in>set (invoked (vars pq)). 1 \<le> snd call \<and> snd call \<le> m)
     \<and> map fst (invoked (vars pq)) @ queue (queue' pq) = submitted events
     \<and> (1 \<le> m \<and> (\<forall>ev\<in>set events. \<not> isRejected ev) \<longrightarrow>
          getSize (drainFor render ?n pq) = 0 \<and> getRunning (drainFor render ?n pq) = 0
          \<and> map fst (invoked (vars (drainFor render ?n pq))) = submitted events
          \<and> (\<forall>n\<in>set (history (vars (drainFor render ?n pq))). 0 \<le> n \<and> n \<le> m))"
    by blast
qed

theorem promiseQueue_limit_witness:
  "\<exists>pq. runEvents renderObject runner2 (watchedItems @ [Resolved 1]) = Some pq
      \<and> getRunning pq = 2 \<and> getSize pq = 2 \<and> awaiting (vars pq) = [2, 3]
      \<and> history (vars pq) = [0, 1, 2, 1, 2]
      \<and> map running (told (vars pq)) = [1, 1, 2, 2, 2, 2, 2, 1, 2]
      \<and> observer (vars pq) = [1, 1, 2, 2, 2, 2, 2, 1, 2]
      \<and> invoked (vars pq) = [(1, 1), (2, 2), (3, 2)]
      \<and> map fst (invoked (vars pq)) @ queue (queue' pq) = [1, 2, 3, 4, 5]
      \<and> getSize (drainFor renderObject 4 pq) = 0
      \<and> getRunning (drainFor renderObject 4 pq) = 0
      \<and> map fst (invoked (vars (drainFor renderObject 4 pq))) = [1, 2, 3, 4, 5]
      \<and> (\<forall>n\<in>set (history (vars (drainFor renderObject 4 pq))). 0 \<le> n \<and> n \<le> 2)"
proof -
  let ?evs = "watchedItems @ [Resolved 1]"
  from scenario_run obtain pq where r: "runEvents renderObject runner2 ?evs = Some pq"
    and v: "getRunning pq = 2" "getSize pq = 2" "awaiting (vars pq) = [2, 3]"
      "history (vars pq) = [0, 1, 2, 1, 2]"
      "map running (told (vars pq)) = [1, 1, 2, 2, 2, 2, 2, 1, 2]"
      "observer (vars pq) = [1, 1, 2, 2, 2, 2, 2, 1, 2]"
      "invoked (vars pq) = [(1, 1), (2, 2), (3, 2)]"
    by (cases "runEvents renderObject runner2 ?evs") auto
  have n: "\<forall>ev\<in>set ?evs. \<not> isRejected ev" by (simp add: watchedItems_def fiveItems_def)
  have s: "submitted ?evs = [1, 2, 3, 4, 5]" by (simp add: watchedItems_def fiveItems_def)
  from r have r': "runEvents renderObject (PromiseQueue renderObject 2 []) ?evs = Some pq"
    by (simp add: runner2_def)
  note t = promiseQueue_limit [of 2 renderObject "[]" ?evs pq]
  from t r' n have "map fst (invoked (vars pq)) @ queue (queue' pq) = submitted ?evs
      \<and> getSize (drainFor renderObject (getSize pq + length (awaiting (vars pq))) pq) = 0
      \<and> getRunning (drainFor renderObject (getSize pq + length (awaiting (vars pq))) pq) = 0
      \<and> map fst (invoked (vars (drainFor renderObject (getSize pq + length (awaiting (vars pq))) pq)))
          = submitted ?evs
      \<and> (\<forall>n\<in>set (history (vars (drainFor renderObject (getSize pq + length (awaiting (vars pq))) pq))).
            0 \<le> n \<and> n \<le> 2)"
    by simp
  with v(1-3) s have "map fst (invoked (vars pq)) @ queue (queue' pq) = [1, 2, 3, 4, 5]
      \<and> getSize (drainFor renderObject 4 pq) = 0
      \<and> getRunning (drainFor renderObject 4 pq) = 0
      \<and> map fst (invoked (vars (drainFor renderObject 4 pq))) = [1, 2, 3, 4, 5]
      \<and> (\<forall>n\<in>set (history (vars (drainFor renderObject 4 pq))). 0 \<le> n \<and> n \<le> 2)"
    by simp
  with r v show ?thesis by (intro exI [of _ pq]) simp
qed

section \<open>Properties of the orchestration\<close>

lemma length_filter_below:
  "int (length xs) - int (length (filter (\<lambda>x. (f x :: int) < e) xs))
     = int (length (filter (\<lambda>x. e \<le> f x) xs))"
  by (induction xs) auto

lemma filterSkippedAnalyses_ok:
  assumes "getEnd s c = Inr end'"
  shows "filterSkippedAnalyses typeError s c as summary
     = (Inr (filter (\<lambda>a. version (analysisType a) < version end') as),
        summary\<lparr>counts := (counts summary)
          \<lparr>skipped := skipped (counts summary)
              + int (length (filter (\<lambda>a. version end' \<le> version (analysisType a)) as)),
           processed := processed (counts summary)
              + int (length (filter (\<lambda>a. version end' \<le> version (analysisType a)) as))\<rparr>\<rparr>)"
proof (cases as)
  case Nil
  then show ?thesis by (simp add: filterSkippedAnalyses_def)
next
  case (Cons a rest)
  note l = length_filter_below [of as "\<lambda>a. version (analysisType a)" "version end'"]
  from assms Cons have "filterSkippedAnalyses typeError s c as summary
     = (Inr (filter (\<lambda>a. version (analysisType a) < version end') as),
        summary\<lparr>counts := (counts summary)
          \<lparr>skipped := skipped (counts summary)
              + (int (length as) - int (length (filter (\<lambda>a. version (analysisType a) < version end') as))),
           processed := processed (counts summary)
              + (int (length as) - int (length (filter (\<lambda>a. version (analysisType a) < version end') as)))\<rparr>\<rparr>)"
    by (simp add: filterSkippedAnalyses_def Let_def del: filter.simps)
  then show ?thesis unfolding l .
qed

lemma withResult_returns:
  "\<exists>r w'. withResult render typeError fn (IsResult (Success d)) w = (Inr r, w')"
  by (simp add: withResult_Success split: prod.splits sum.splits)

lemma applyMigrationsToPage_ok:
  assumes "filterSkippedAnalyses typeError s c (analyses page) summary = (Inr filtered, summary')"
  shows "applyMigrationsToPage render typeError s c migrate (Bare page) (summary, w)
     = withResult render typeError migrate (IsResult (Success filtered)) (summary', w)"
proof -
  obtain r st where m: "withResult render typeError migrate (IsResult (Success filtered)) (summary', w)
      = (Inr r, st)"
    using withResult_returns [of render typeError migrate filtered "(summary', w)"] by blast
  show ?thesis
    using assms
    by (simp add: applyMigrationsToPage_def build_def into_def pipe_def withResult_Bare m
          withResult_Success [where fn = "\<lambda>page st. (Inr (Bare (analyses page)), st)"]
          withResult_Success [where d = page]
          withResult_Success [where d = "analyses page"]
          asResult_def success_def)
qed

text \<open>
  C6. For a chain whose \<^verbatim>\<open>getEnd()\<close> returns \<open>end'\<close>: the filter keeps the records whose
  version is below the version of \<open>end'\<close> and adds the number of the others to the skipped
  and to the processed count, one for each; no record at or beyond the end version is in
  what the filter returns; and the page pipeline calls the migrate step on just what the
  filter returned, whatever the migrate step is, so no such record reaches the chain.
\<close>

theorem skipped_records_filtered:
  "getEnd s c = Inr end' \<longrightarrow>
     (let filtered = filter (\<lambda>a. version (analysisType a) < version end') (analyses page);
          n = int (length (filter (\<lambda>a. version end' \<le> version (analysisType a)) (analyses page)));
          summary' = summary\<lparr>counts := (counts summary)\<lparr>skipped := skipped (counts summary) + n,
                        processed := processed (counts summary) + n\<rparr>\<rparr>
      in filterSkippedAnalyses typeError s c (analyses page) summary = (Inr filtered, summary')
         \<and> (\<forall>a\<in>set (analyses page). version end' \<le> version (analysisType a) \<longrightarrow> a \<notin> set filtered)
         \<and> applyMigrationsToPage render typeError s c migrate (Bare page) (summary, w)
             = withResult render typeError migrate (IsResult (Success filtered)) (summary', w))"
proof
  assume e: "getEnd s c = Inr end'"
  note f = filterSkippedAnalyses_ok [OF e, of typeError "analyses page" summary]
  from applyMigrationsToPage_ok [OF f, of render migrate w] f
  show "let filtered = filter (\<lambda>a. version (analysisType a) < version end') (analyses page);
          n = int (length (filter (\<lambda>a. version end' \<le> version (analysisType a)) (analyses page)));
          summary' = summary\<lparr>counts := (counts summary)\<lparr>skipped := skipped (counts summary) + n,
                        processed := processed (counts summary) + n\<rparr>\<rparr>
      in filterSkippedAnalyses typeError s c (analyses page) summary = (Inr filtered, summary')
         \<and> (\<forall>a\<in>set (analyses page). version end' \<le> version (analysisType a) \<longrightarrow> a \<notin> set filtered)
         \<and> applyMigrationsToPage render typeError s c migrate (Bare page) (summary, w)
             = withResult render typeError migrate (IsResult (Success filtered)) (summary', w)"
    by (simp add: Let_def)
qed

theorem skipped_records_filtered_witness:
  "getEnd [linear] 0 = Inr (vers 4)
   \<and> filterSkippedAnalyses TypeErr [linear] 0 (analyses page1) summary0
       = (Inr [rec1, other 2],
          summary0\<lparr>counts := (counts summary0)\<lparr>skipped := 2, processed := 2\<rparr>\<rparr>)
   \<and> applyMigrationsToPage renderObject TypeErr [linear] 0 countStep (Bare page1) (summary0, 0)
       = (Inr (Success 2), summary0\<lparr>counts := (counts summary0)\<lparr>skipped := 2, processed := 2\<rparr>\<rparr>, 1)"
proof -
  have e: "getEnd [linear] 0 = Inr (vers 4)" by (simp add: getEnd_def linear_def)
  have f: "filter (\<lambda>a. version (analysisType a) < version (vers 4)) (analyses page1) = [rec1, other 2]"
    by (simp add: page1_def other_def rec1_def vers_def)
  have n: "int (length (filter (\<lambda>a. version (vers 4) \<le> version (analysisType a)) (analyses page1))) = 2"
    by (simp add: page1_def other_def rec1_def vers_def)
  have z: "skipped (counts summary0) = 0" "processed (counts summary0) = 0"
    by (simp_all add: summary0_def)
  from skipped_records_filtered [of "[linear]" 0 "vers 4" page1 summary0 TypeErr renderObject countStep 0] e
  have "filterSkippedAnalyses TypeErr [linear] 0 (analyses page1) summary0
       = (Inr [rec1, other 2], summary0\<lparr>counts := (counts summary0)\<lparr>skipped := 2, processed := 2\<rparr>\<rparr>)
     \<and> applyMigrationsToPage renderObject TypeErr [linear] 0 countStep (Bare page1) (summary0, 0)
       = withResult renderObject TypeErr countStep (IsResult (Success [rec1, other 2]))
           (summary0\<lparr>counts := (counts summary0)\<lparr>skipped := 2, processed := 2\<rparr>\<rparr>, 0)"
    unfolding Let_def f n z by simp
  moreover have "withResult renderObject TypeErr countStep (IsResult (Success [rec1, other 2]))
           (summary0\<lparr>counts := (counts summary0)\<lparr>skipped := 2, processed := 2\<rparr>\<rparr>, 0)
       = (Inr (Success 2), summary0\<lparr>counts := (counts summary0)\<lparr>skipped := 2, processed := 2\<rparr>\<rparr>, 1)"
    by (simp add: withResult_Success asResult_def success_def countStep_def)
  ultimately show ?thesis using e by simp
qed


















end
